theory Spec2Isabelle
  imports Complex_Main "HOL-Library.Multiset"
begin

section \<open>Game event generator: data model\<close>

text \<open>
  The program is \<^verbatim>\<open>src/generator/generator.py\<close>. Python dictionaries with a fixed set
  of keys become records, the module-level catalogs become constants, Python's unbounded
  integers become \<^typ>\<open>int\<close>, and every exception the code can raise is a value of
  \<open>py_error\<close>, returned in the left summand of a sum type.
\<close>

datatype py_error = IndexError | KeyError | ValueError | OverflowError | DatabaseError

text \<open>A player dictionary, as \<^verbatim>\<open>init_player_pool\<close> builds it (lines 125-132).\<close>

record player =
  player_id :: string
  player_name :: string
  level :: int
  total_points :: int
  kills :: int
  deaths :: int

text \<open>
  The event dictionary of lines 206-214. Its keys \<^verbatim>\<open>player_id\<close>, \<^verbatim>\<open>player_name\<close>
  and \<^verbatim>\<open>level\<close> are also keys of a player, so the fields carry the prefix \<open>ev_\<close>.
  \<^verbatim>\<open>weapon\<close> is \<^verbatim>\<open>None\<close> or a string.
\<close>

record event =
  ev_player_id :: string
  ev_player_name :: string
  ev_action_type :: string
  ev_points :: int
  ev_level :: int
  ev_weapon :: "string option"
  ev_map_name :: string

text \<open>
  One entry of \<^verbatim>\<open>ACTION_TYPES\<close>. The key \<^verbatim>\<open>description\<close> is a display text that
  no function reads; it is left out.
\<close>

record action_info =
  weight :: int
  points_range :: "int \<times> int"

definition WEAPONS :: "string list" where
  "WEAPONS =
     [''AK-47'', ''M4A4'', ''M4A1-S'', ''AWP'', ''Desert Eagle'',
      ''P90'', ''UMP-45'', ''MP7'', ''Glock-18'', ''USP-S'',
      ''FAMAS'', ''Galil AR'', ''SSG 08'', ''Knife'', ''Grenade'']"

definition MAPS :: "string list" where
  "MAPS =
     [''de_dust2'', ''de_inferno'', ''de_mirage'', ''de_nuke'',
      ''de_train'', ''de_overpass'', ''de_vertigo'', ''de_ancient'']"

text \<open>
  \<^verbatim>\<open>ACTION_TYPES\<close> is a dictionary whose insertion order matters (the weighted choice
  walks the keys in that order), so it is an association list with distinct keys.
\<close>

definition ACTION_TYPES :: "(string \<times> action_info) list" where
  "ACTION_TYPES =
     [(''kill'',        \<lparr>weight = 35, points_range = (10, 30)\<rparr>),
      (''death'',       \<lparr>weight = 35, points_range = (-25, -10)\<rparr>),
      (''headshot'',    \<lparr>weight = 10, points_range = (40, 60)\<rparr>),
      (''assist'',      \<lparr>weight = 8,  points_range = (5, 15)\<rparr>),
      (''achievement'', \<lparr>weight = 7,  points_range = (50, 150)\<rparr>),
      (''level_up'',    \<lparr>weight = 3,  points_range = (100, 250)\<rparr>),
      (''defuse_bomb'', \<lparr>weight = 2,  points_range = (80, 120)\<rparr>)]"

text \<open>Subscription \<^verbatim>\<open>d[k]\<close> of a dictionary: a missing key raises \<^verbatim>\<open>KeyError\<close>.\<close>

definition dict_get :: "('k \<times> 'v) list \<Rightarrow> 'k \<Rightarrow> py_error + 'v" where
  "dict_get d k = (case map_of d k of None \<Rightarrow> Inl KeyError | Some v \<Rightarrow> Inr v)"

section \<open>The calls into Python's \<^verbatim>\<open>random\<close> module\<close>

text \<open>
  Randomness is an input. Each library call is modelled by what CPython's
  \<^verbatim>\<open>random.py\<close> computes from the raw value it draws: \<^verbatim>\<open>_randbelow(n)\<close> yields a
  natural number below \<open>n\<close>, and \<^verbatim>\<open>random()\<close> yields the double \<open>r / 2 ^ 53\<close> for a
  natural number \<open>r\<close> below \<open>2 ^ 53\<close>. The raw values of one \<^verbatim>\<open>generate_event\<close> call
  are collected in the record \<open>draws\<close>.
\<close>

text \<open>
  \<^verbatim>\<open>random.choice(seq)\<close>: \<^verbatim>\<open>IndexError\<close> on an empty sequence, otherwise
  \<^verbatim>\<open>seq[_randbelow(len(seq))]\<close>; \<open>r\<close> is the value of \<^verbatim>\<open>_randbelow\<close>.
\<close>

definition choice :: "'a list \<Rightarrow> nat \<Rightarrow> py_error + 'a" where
  "choice seq r = (if seq = [] then Inl IndexError else Inr (seq ! r))"

text \<open>
  \<^verbatim>\<open>random.randint(a, b)\<close> is \<^verbatim>\<open>randrange(a, b + 1)\<close>: with \<open>width = b + 1 - a\<close> it
  returns \<^verbatim>\<open>a + _randbelow(width)\<close> when the width is positive and raises
  \<^verbatim>\<open>ValueError\<close> otherwise.
\<close>

definition randint :: "int \<Rightarrow> int \<Rightarrow> nat \<Rightarrow> py_error + int" where
  "randint a b r = (if b + 1 - a > 0 then Inr (a + int r) else Inl ValueError)"

text \<open>\<^verbatim>\<open>itertools.accumulate(weights)\<close>: the running totals.\<close>

fun accumulate_from :: "int \<Rightarrow> int list \<Rightarrow> int list" where
  "accumulate_from acc [] = []"
| "accumulate_from acc (w # ws) = (acc + w) # accumulate_from (acc + w) ws"

definition accumulate :: "int list \<Rightarrow> int list" where
  "accumulate ws = accumulate_from 0 ws"

text \<open>
  \<^verbatim>\<open>bisect.bisect_right(a, x, lo, hi)\<close>, the binary search the weighted choice uses:
  \<^verbatim>\<open>
  while lo < hi:
      mid = (lo + hi) // 2
      if x < a[mid]: hi = mid
      else: lo = mid + 1
  return lo
  \<close>
  Every index it reads is below \<open>hi\<close>, and the caller passes \<open>hi = len(a) - 1\<close>.
\<close>

function bisect_right :: "'a::linorder list \<Rightarrow> 'a \<Rightarrow> nat \<Rightarrow> nat \<Rightarrow> nat" where
  "bisect_right a x lo hi =
     (if lo < hi then
        (let mid = (lo + hi) div 2
         in if x < a ! mid then bisect_right a x lo mid
            else bisect_right a x (mid + 1) hi)
      else lo)"
  by pat_completeness auto
termination
  by (relation "measure (\<lambda>(a, x, lo, hi). hi - lo)") auto

declare bisect_right.simps [simp del]

text \<open>
  Doubles have 53 significant bits, and the arithmetic of the weighted choice rounds to the
  nearest double, ties to the even significand. For a natural number \<open>p\<close>,
  \<open>significand_shift p\<close> is the number of low bits that do not fit,
  \<open>round_half_even e p\<close> is the multiple of \<open>2 ^ e\<close> nearest to \<open>p\<close>, and
  \<open>round_to_double p\<close> is the nearest number with at most 53 significant bits.
\<close>

function significand_shift :: "nat \<Rightarrow> nat" where
  "significand_shift p = (if p < 2 ^ 53 then 0 else Suc (significand_shift (p div 2)))"
  by pat_completeness auto
termination
  by (relation "measure (\<lambda>p. p)") auto

declare significand_shift.simps [simp del]

definition round_half_even :: "nat \<Rightarrow> nat \<Rightarrow> nat" where
  "round_half_even e p =
     (let q = p div 2 ^ e;
          r = p mod 2 ^ e
      in if 2 ^ e < 2 * r \<or> (2 * r = 2 ^ e \<and> odd q) then (q + 1) * 2 ^ e else q * 2 ^ e)"

definition round_to_double :: "nat \<Rightarrow> nat" where
  "round_to_double p = round_half_even (significand_shift p) p"

text \<open>
  The conversion of a Python integer to a float, as in \<^verbatim>\<open>cum_weights[-1] + 0.0\<close>: the
  nearest double, which is again an integer, or \<^verbatim>\<open>OverflowError\<close> when that is beyond
  the largest double.
\<close>

definition float_of_int :: "int \<Rightarrow> py_error + int" where
  "float_of_int t =
     (let m = round_to_double (nat \<bar>t\<bar>)
      in if 2 ^ 1024 \<le> m then Inl OverflowError else Inr (sgn t * int m))"

text \<open>
  The product \<^verbatim>\<open>random() * total\<close> of the double \<open>r / 2 ^ 53\<close> and a positive double
  \<open>t\<close> with an integer value: the exact product is \<open>r * t / 2 ^ 53\<close>, and dividing by a
  power of two does not change which bits are rounded away.
\<close>

definition random_times :: "nat \<Rightarrow> int \<Rightarrow> real" where
  "random_times r t = real (round_to_double (r * nat t)) / 2 ^ 53"

text \<open>
  \<^verbatim>\<open>random.choices(population, weights=weights)\<close> with the default \<open>k = 1\<close>, followed by
  the \<^verbatim>\<open>[0]\<close> of line 178, so the single drawn element is returned:
  \<^verbatim>\<open>
  n = len(population)
  cum_weights = list(accumulate(weights))
  if len(cum_weights) != n: raise ValueError
  total = cum_weights[-1] + 0.0
  if total <= 0.0: raise ValueError
  hi = n - 1
  return [population[bisect(cum_weights, random() * total, 0, hi)]]
  \<close>
  \<open>r\<close> is the raw value of \<^verbatim>\<open>random()\<close> and \<open>total_f\<close> the float \<^verbatim>\<open>total\<close>. Python compares a float with an integer
  running total exactly, so the comparisons of the search are comparisons of reals.
\<close>

definition choices :: "'a list \<Rightarrow> int list \<Rightarrow> nat \<Rightarrow> py_error + 'a" where
  "choices population weights r =
     (let n = length population;
          cum_weights = accumulate weights
      in if length cum_weights \<noteq> n then Inl ValueError
         else if cum_weights = [] then Inl IndexError
         else
           (case float_of_int (last cum_weights) of
              Inl e \<Rightarrow> Inl e
            | Inr total_f \<Rightarrow>
                if total_f \<le> 0 then Inl ValueError
                else Inr (population !
                       bisect_right (map real_of_int cum_weights) (random_times r total_f)
                         0 (n - 1))))"

record draws =
  player_r :: nat    \<comment> \<open>\<^verbatim>\<open>_randbelow(len(PLAYER_POOL))\<close> of line 173\<close>
  action_r :: nat    \<comment> \<open>\<^verbatim>\<open>random()\<close> inside \<^verbatim>\<open>random.choices\<close>, line 178, times \<open>2 ^ 53\<close>\<close>
  points_r :: nat    \<comment> \<open>\<^verbatim>\<open>_randbelow(points_max - points_min + 1)\<close> of line 182\<close>
  level_u :: real    \<comment> \<open>\<^verbatim>\<open>random.random()\<close> of line 193, as a real number\<close>
  weapon_r :: nat    \<comment> \<open>\<^verbatim>\<open>_randbelow(len(WEAPONS))\<close> of line 200\<close>
  map_r :: nat       \<comment> \<open>\<^verbatim>\<open>_randbelow(len(MAPS))\<close> of line 203\<close>

section \<open>\<^verbatim>\<open>generate_event\<close>\<close>

text \<open>
  Lines 176-178: the keys of the catalog in insertion order, the weight of each key, and
  the weighted choice among the keys. The keys are those of the dictionary itself, so the
  lookups \<^verbatim>\<open>ACTION_TYPES[a]['weight']\<close> read the entries in order.
\<close>

definition select_action :: "(string \<times> action_info) list \<Rightarrow> nat \<Rightarrow> py_error + string" where
  "select_action catalog r =
     (let action_types = map fst catalog;
          weights = map (\<lambda>(a, info). weight info) catalog
      in choices action_types weights r)"

text \<open>
  Lines 185-195, the mutation of the selected player: the points are added, the kill or
  death counter is incremented, and the level rule is applied. \<open>roll\<close> is the value of
  \<^verbatim>\<open>random.random()\<close>. The double \<^verbatim>\<open>0.05\<close> exceeds 1/20 by less than the distance
  from 1/20 to the next value \<open>r / 2 ^ 53\<close> above it, so comparing with 1/20 decides the
  same.
\<close>

definition update_player :: "string \<Rightarrow> int \<Rightarrow> real \<Rightarrow> player \<Rightarrow> player" where
  "update_player action_type points roll player0 =
     (let player1 = player0\<lparr>total_points := total_points player0 + points\<rparr>;
          player2 =
            (if action_type = ''kill'' \<or> action_type = ''headshot''
             then player1\<lparr>kills := kills player1 + 1\<rparr>
             else if action_type = ''death''
             then player1\<lparr>deaths := deaths player1 + 1\<rparr>
             else player1)
      in if action_type = ''level_up'' \<or> roll < 0.05
         then (if level player2 < 100 then player2\<lparr>level := level player2 + 1\<rparr> else player2)
         else player2)"

text \<open>
  The whole function (lines 165-216). \<^verbatim>\<open>PLAYER_POOL\<close> is global state: it is passed in
  and returned. The chosen player is a reference into the list, so mutating it updates
  the list at the chosen index. Every call that can raise before line 185 leaves the pool
  untouched; the two calls after it draw from the non-empty constant catalogs and raise
  nothing (\<open>generate_event_succeeds\<close> below).
\<close>

definition generate_event :: "player list \<Rightarrow> draws \<Rightarrow> py_error + (event \<times> player list)" where
  "generate_event pool d =
     (case choice pool (player_r d) of Inl e \<Rightarrow> Inl e | Inr player0 \<Rightarrow>
      case select_action ACTION_TYPES (action_r d) of Inl e \<Rightarrow> Inl e | Inr action_type \<Rightarrow>
      case dict_get ACTION_TYPES action_type of Inl e \<Rightarrow> Inl e | Inr info \<Rightarrow>
      case randint (fst (points_range info)) (snd (points_range info)) (points_r d) of
        Inl e \<Rightarrow> Inl e | Inr points \<Rightarrow>
      let player1 = update_player action_type points (level_u d) player0 in
      case (if action_type \<in> set [''kill'', ''headshot'', ''death'']
            then (case choice WEAPONS (weapon_r d) of Inl e \<Rightarrow> Inl e | Inr w \<Rightarrow> Inr (Some w))
            else Inr None) of Inl e \<Rightarrow> Inl e | Inr weapon \<Rightarrow>
      case choice MAPS (map_r d) of Inl e \<Rightarrow> Inl e | Inr map_name \<Rightarrow>
        Inr (\<lparr>ev_player_id = player_id player1,
              ev_player_name = player_name player1,
              ev_action_type = action_type,
              ev_points = points,
              ev_level = level player1,
              ev_weapon = weapon,
              ev_map_name = map_name\<rparr>,
             pool[player_r d := player1]))"

text \<open>
  Any sequence of \<^verbatim>\<open>generate_event\<close> calls on the global pool, one record of draws per
  call; the events are collected in call order. An exception ends the run.
\<close>

fun run_events :: "player list \<Rightarrow> draws list \<Rightarrow> py_error + (event list \<times> player list)" where
  "run_events pool [] = Inr ([], pool)"
| "run_events pool (d # ds) =
     (case generate_event pool d of
        Inl e \<Rightarrow> Inl e
      | Inr (ev, pool1) \<Rightarrow>
          (case run_events pool1 ds of
             Inl e \<Rightarrow> Inl e
           | Inr (evs, pool2) \<Rightarrow> Inr (ev # evs, pool2)))"

section \<open>\<^verbatim>\<open>init_player_pool\<close>\<close>

text \<open>
  The format \<^verbatim>\<open>{i:04d}\<close> of a non-negative integer: its decimal digits, padded on the
  left with zeros to a width of at least four.
\<close>

definition digit_char :: "nat \<Rightarrow> char" where
  "digit_char d = ''0123456789'' ! d"

function decimal :: "nat \<Rightarrow> string" where
  "decimal n = (if n < 10 then [digit_char n] else decimal (n div 10) @ [digit_char (n mod 10)])"
  by pat_completeness auto
termination
  by (relation "measure (\<lambda>n. n)") auto

declare decimal.simps [simp del]

definition format_04d :: "nat \<Rightarrow> string" where
  "format_04d i = replicate (4 - length (decimal i)) (CHR ''0'') @ decimal i"

text \<open>
  The loop of lines 124-133 over \<^verbatim>\<open>range(size)\<close> (the argument is \<open>sz\<close> here).
  \<open>names i\<close> is the value of \<^verbatim>\<open>fake.user_name()\<close> in iteration \<open>i\<close> and \<open>rs i\<close> the
  value of \<^verbatim>\<open>_randbelow(50)\<close> inside \<^verbatim>\<open>random.randint(1, 50)\<close>. The new player is
  appended to the global pool.
\<close>

fun init_loop ::
  "nat list \<Rightarrow> (nat \<Rightarrow> string) \<Rightarrow> (nat \<Rightarrow> nat) \<Rightarrow> player list \<Rightarrow> py_error + player list" where
  "init_loop [] names rs pool = Inr pool"
| "init_loop (i # range_rest) names rs pool =
     (case randint 1 50 (rs i) of
        Inl e \<Rightarrow> Inl e
      | Inr lvl \<Rightarrow>
          init_loop range_rest names rs
            (pool @ [\<lparr>player_id = ''PLAYER_'' @ format_04d i,
                      player_name = names i,
                      level = lvl,
                      total_points = 0,
                      kills = 0,
                      deaths = 0\<rparr>]))"

definition init_player_pool ::
  "player list \<Rightarrow> int \<Rightarrow> (nat \<Rightarrow> string) \<Rightarrow> (nat \<Rightarrow> nat) \<Rightarrow> py_error + player list" where
  "init_player_pool pool sz names rs = init_loop [0 ..< nat sz] names rs pool"

section \<open>The top players of \<^verbatim>\<open>print_statistics\<close>\<close>

text \<open>
  \<^verbatim>\<open>sorted(xs, key=key, reverse=reverse)\<close>. Python's sort is stable, and with
  \<^verbatim>\<open>reverse=True\<close> the list is reversed, sorted in ascending order and reversed again,
  so that equal keys keep their original order. The stable ascending sort is
  \<^const>\<open>sort_key\<close>.
\<close>

definition sorted_py :: "('a \<Rightarrow> int) \<Rightarrow> bool \<Rightarrow> 'a list \<Rightarrow> 'a list" where
  "sorted_py key reverse xs = (if reverse then rev (sort_key key (rev xs)) else sort_key key xs)"

text \<open>Line 280; the slice \<^verbatim>\<open>[:3]\<close> is \<^term>\<open>take 3\<close>.\<close>

definition top_players :: "player list \<Rightarrow> player list" where
  "top_players pool = take 3 (sorted_py total_points True pool)"

section \<open>\<^verbatim>\<open>insert_event\<close> and the main loop\<close>

text \<open>
  The database is outside the program. What it does in one \<^verbatim>\<open>insert_event\<close> call is
  an input: whether the \<^verbatim>\<open>try\<close> block (cursor, execute, commit) runs through, and, if it
  raises, whether \<^verbatim>\<open>conn.rollback()\<close> in the handler returns or raises in turn.
\<close>

record db_outcome =
  try_ok :: bool
  rollback_ok :: bool

definition insert_event :: "db_outcome \<Rightarrow> event \<Rightarrow> py_error + bool" where
  "insert_event conn event =
     (if try_ok conn then Inr True
      else if rollback_ok conn then Inr False
      else Inl DatabaseError)"

text \<open>
  The state of \<^verbatim>\<open>main\<close>: the global pool and the local counter. One cycle of the
  \<^verbatim>\<open>while True\<close> loop (lines 320-336) generates an event, inserts it and counts it when
  the insert reports success. An exception leaves the loop through the handler of line
  340; the state it leaves behind is the one the final statistics are printed from.
  Printing and sleeping do not change the state.
\<close>

record main_state =
  PLAYER_POOL :: "player list"
  event_count :: int

datatype loop_status = Running | Stopped py_error

definition main_cycle :: "main_state \<Rightarrow> draws \<times> db_outcome \<Rightarrow> loop_status \<times> main_state" where
  "main_cycle s c =
     (case generate_event (PLAYER_POOL s) (fst c) of
        Inl e \<Rightarrow> (Stopped e, s)
      | Inr (event, pool1) \<Rightarrow>
          (case insert_event (snd c) event of
             Inl e \<Rightarrow> (Stopped e, s\<lparr>PLAYER_POOL := pool1\<rparr>)
           | Inr ok \<Rightarrow>
               (Running,
                if ok then s\<lparr>PLAYER_POOL := pool1, event_count := event_count s + 1\<rparr>
                else s\<lparr>PLAYER_POOL := pool1\<rparr>)))"

text \<open>
  The loop over a finite number of cycles: the run up to the moment it is interrupted.
  It goes on to the next cycle exactly when the cycle raised nothing.
\<close>

fun main_loop ::
  "main_state \<Rightarrow> (draws \<times> db_outcome) list \<Rightarrow> loop_status \<times> main_state" where
  "main_loop s [] = (Running, s)"
| "main_loop s (c # cs) =
     (case main_cycle s c of
        (Running, s1) \<Rightarrow> main_loop s1 cs
      | (Stopped e, s1) \<Rightarrow> (Stopped e, s1))"

section \<open>Example inputs\<close>

text \<open>
  A pool of two players and the draws of two calls: one that selects the first player with
  a \<^verbatim>\<open>death\<close> action worth -10 points, and one that selects the second player, at level
  99, with a \<^verbatim>\<open>level_up\<close> action.
\<close>

definition alice :: player where
  "alice = \<lparr>player_id = ''PLAYER_0000'', player_name = ''Alice'', level = 1,
            total_points = 0, kills = 0, deaths = 0\<rparr>"

definition bob :: player where
  "bob = \<lparr>player_id = ''PLAYER_0001'', player_name = ''Bob'', level = 99,
            total_points = 0, kills = 0, deaths = 0\<rparr>"

definition death_draws :: draws where
  "death_draws = \<lparr>player_r = 0, action_r = 4503599627370496, points_r = 15, level_u = 1/2,
                  weapon_r = 0, map_r = 0\<rparr>"

definition level_up_draws :: draws where
  "level_up_draws = \<lparr>player_r = 1, action_r = 8646911284551352, points_r = 0, level_u = 1/100,
                  weapon_r = 0, map_r = 2\<rparr>"

text \<open>
  The draws of a call whose \<^verbatim>\<open>random()\<close> is the double nearest to 0.35, which lies below
  35/100.
\<close>

definition boundary_draws :: draws where
  "boundary_draws = \<lparr>player_r = 0, action_r = 3152519739159347, points_r = 15, level_u = 1/2,
                     weapon_r = 0, map_r = 0\<rparr>"

text \<open>
  Three outcomes of the database in one \<^verbatim>\<open>insert_event\<close> call, and the state of
  \<^verbatim>\<open>main\<close> before the first cycle on the example pool.
\<close>

definition insert_fails :: db_outcome where
  "insert_fails = \<lparr>try_ok = False, rollback_ok = True\<rparr>"

definition insert_succeeds :: db_outcome where
  "insert_succeeds = \<lparr>try_ok = True, rollback_ok = True\<rparr>"

definition rollback_raises :: db_outcome where
  "rollback_raises = \<lparr>try_ok = False, rollback_ok = False\<rparr>"

definition start_state :: main_state where
  "start_state = \<lparr>PLAYER_POOL = [alice, bob], event_count = 0\<rparr>"

section \<open>Auxiliary definitions\<close>

text \<open>
  Reading a decimal string back, used to show that the formatted ids are distinct, and the
  player that iteration \<open>i\<close> of the loop in \<^verbatim>\<open>init_player_pool\<close> appends.
\<close>

definition digit_val :: "char \<Rightarrow> nat" where
  "digit_val c = of_char c - 48"

definition read_decimal :: "string \<Rightarrow> nat" where
  "read_decimal s = foldl (\<lambda>acc c. 10 * acc + digit_val c) 0 s"

definition new_player :: "(nat \<Rightarrow> string) \<Rightarrow> (nat \<Rightarrow> nat) \<Rightarrow> nat \<Rightarrow> player" where
  "new_player names rs i =
     \<lparr>player_id = ''PLAYER_'' @ format_04d i, player_name = names i,
      level = 1 + int (rs i), total_points = 0, kills = 0, deaths = 0\<rparr>"

text \<open>
  The weights of a catalog in key order, their total, and the sum of the weights that come
  before position \<open>i\<close>; the index the binary search of \<^verbatim>\<open>random.choices\<close> returns.
\<close>

definition catalog_weights :: "(string \<times> action_info) list \<Rightarrow> int list" where
  "catalog_weights catalog = map (\<lambda>(a, info). weight info) catalog"

definition weight_total :: "(string \<times> action_info) list \<Rightarrow> int" where
  "weight_total catalog = sum_list (catalog_weights catalog)"

definition weight_before :: "(string \<times> action_info) list \<Rightarrow> nat \<Rightarrow> int" where
  "weight_before catalog i = sum_list (take i (catalog_weights catalog))"

definition selected_index :: "(string \<times> action_info) list \<Rightarrow> real \<Rightarrow> nat" where
  "selected_index catalog x =
     bisect_right (map real_of_int (accumulate (catalog_weights catalog))) x
       0 (length catalog - 1)"

text \<open>
  The number of raw values of \<^verbatim>\<open>random()\<close>, out of the \<open>2 ^ 53\<close> it can take, for which
  the catalog of the program yields the action \<open>a\<close>. Divided by \<open>2 ^ 53\<close> it is the
  probability of \<open>a\<close> when the raw value is uniform.
\<close>

definition selection_count :: "string \<Rightarrow> nat" where
  "selection_count a = card {r. r < 2 ^ 53 \<and> select_action ACTION_TYPES r = Inr a}"

text \<open>A pool with ties in \<open>total_points\<close>, for the ranking.\<close>

definition ranking_pool :: "player list" where
  "ranking_pool =
     [\<lparr>player_id = ''PLAYER_0000'', player_name = ''Ann'', level = 3,
       total_points = 10, kills = 0, deaths = 0\<rparr>,
      \<lparr>player_id = ''PLAYER_0001'', player_name = ''Ben'', level = 5,
       total_points = 30, kills = 2, deaths = 0\<rparr>,
      \<lparr>player_id = ''PLAYER_0002'', player_name = ''Cat'', level = 7,
       total_points = 10, kills = 1, deaths = 1\<rparr>,
      \<lparr>player_id = ''PLAYER_0003'', player_name = ''Dan'', level = 9,
       total_points = 30, kills = 1, deaths = 0\<rparr>]"

section \<open>Basic facts about the library calls and \<^verbatim>\<open>generate_event\<close>\<close>

lemma bisect_right_bounds:
  "lo \<le> hi \<Longrightarrow> lo \<le> bisect_right a x lo hi \<and> bisect_right a x lo hi \<le> hi"
proof (induction a x lo hi rule: bisect_right.induct)
  case (1 a x lo hi)
  show ?case
  proof (cases "lo < hi")
    case False
    with "1.prems" show ?thesis by (simp add: bisect_right.simps)
  next
    case True
    define mid where "mid = (lo + hi) div 2"
    have m: "lo \<le> mid" "mid < hi" using True by (auto simp: mid_def)
    show ?thesis
    proof (cases "x < a ! mid")
      case True
      have "lo \<le> bisect_right a x lo mid \<and> bisect_right a x lo mid \<le> mid"
        using "1.IH"(1)[OF \<open>lo < hi\<close> mid_def True] m by simp
      moreover have "bisect_right a x lo hi = bisect_right a x lo mid"
        using \<open>lo < hi\<close> True by (subst bisect_right.simps) (simp add: mid_def Let_def)
      ultimately show ?thesis using m by simp
    next
      case False
      have "mid + 1 \<le> bisect_right a x (mid + 1) hi \<and> bisect_right a x (mid + 1) hi \<le> hi"
        using "1.IH"(2)[OF \<open>lo < hi\<close> mid_def False] m by simp
      moreover have "bisect_right a x lo hi = bisect_right a x (mid + 1) hi"
        using \<open>lo < hi\<close> False by (subst bisect_right.simps) (simp add: mid_def Let_def)
      ultimately show ?thesis using m by simp
    qed
  qed
qed

lemma length_accumulate_from: "length (accumulate_from acc ws) = length ws"
  by (induction ws arbitrary: acc) auto

lemma choices_in_population:
  assumes "choices population weights r = Inr x"
  shows "x \<in> set population"
proof -
  let ?cum = "accumulate weights"
  let ?n = "length population"
  from assms have len: "length ?cum = ?n" and ne: "?cum \<noteq> []"
    by (auto simp: choices_def Let_def split: if_splits)
  from assms obtain y where x: "x = population ! bisect_right (map real_of_int ?cum) y 0 (?n - 1)"
    by (auto simp: choices_def Let_def split: if_splits sum.splits)
  have "0 < ?n" using len ne by (cases population) auto
  moreover have "bisect_right (map real_of_int ?cum) y 0 (?n - 1) \<le> ?n - 1"
    using bisect_right_bounds[of 0 "?n - 1"] by simp
  ultimately have "bisect_right (map real_of_int ?cum) y 0 (?n - 1) < ?n"
    by linarith
  then show ?thesis unfolding x by (rule nth_mem)
qed

lemma significand_shift_small: "p < 2 ^ 53 \<Longrightarrow> significand_shift p = 0"
  by (subst significand_shift.simps) simp

lemma round_to_double_small: "p < 2 ^ 53 \<Longrightarrow> round_to_double p = p"
  by (simp add: round_to_double_def round_half_even_def significand_shift_small)

lemma float_of_int_100: "float_of_int 100 = Inr 100"
  by (simp add: float_of_int_def round_to_double_small)

lemma select_action_ACTION_TYPES_eq:
  "select_action ACTION_TYPES r =
     Inr ([''kill'', ''death'', ''headshot'', ''assist'', ''achievement'', ''level_up'',
           ''defuse_bomb''] !
            bisect_right [35, 70, 80, 88, 95, 98, 100] (random_times r 100) 0 6)"
proof -
  have six: "(6::nat) = Suc (Suc (Suc (Suc (Suc (Suc 0)))))" by simp
  show ?thesis
    by (subst six)
       (simp add: select_action_def choices_def accumulate_def ACTION_TYPES_def Let_def
         float_of_int_100)
qed

lemma select_action_ACTION_TYPES_succeeds:
  "\<exists>a. select_action ACTION_TYPES r = Inr a"
  by (simp add: select_action_ACTION_TYPES_eq)

lemma select_action_in_keys:
  "select_action catalog r = Inr a \<Longrightarrow> a \<in> set (map fst catalog)"
  unfolding select_action_def Let_def by (rule choices_in_population)

lemma dict_get_ACTION_TYPES:
  "a \<in> set (map fst ACTION_TYPES) \<Longrightarrow> \<exists>info. dict_get ACTION_TYPES a = Inr info \<and> (a, info) \<in> set ACTION_TYPES"
  by (auto simp: dict_get_def ACTION_TYPES_def)

lemma generate_event_InrD:
  assumes "generate_event pool d = Inr (ev, pool1)"
  shows "\<exists>action_type info points weapon.
           pool \<noteq> [] \<and>
           select_action ACTION_TYPES (action_r d) = Inr action_type \<and>
           dict_get ACTION_TYPES action_type = Inr info \<and>
           randint (fst (points_range info)) (snd (points_range info)) (points_r d) = Inr points \<and>
           (if action_type \<in> set [''kill'', ''headshot'', ''death'']
            then weapon = Some (WEAPONS ! weapon_r d) else weapon = None) \<and>
           ev = \<lparr>ev_player_id = player_id (pool ! player_r d),
                 ev_player_name = player_name (pool ! player_r d),
                 ev_action_type = action_type,
                 ev_points = points,
                 ev_level = level (update_player action_type points (level_u d) (pool ! player_r d)),
                 ev_weapon = weapon,
                 ev_map_name = MAPS ! map_r d\<rparr> \<and>
           pool1 = pool[player_r d := update_player action_type points (level_u d) (pool ! player_r d)]"
proof -
  have ne: "pool \<noteq> []"
    using assms by (cases "pool = []") (simp_all add: generate_event_def choice_def)
  then have c: "choice pool (player_r d) = Inr (pool ! player_r d)"
    by (simp add: choice_def)
  obtain a where a: "select_action ACTION_TYPES (action_r d) = Inr a"
    using assms c by (cases "select_action ACTION_TYPES (action_r d)") (simp_all add: generate_event_def)
  obtain info where i: "dict_get ACTION_TYPES a = Inr info"
    using assms c a by (cases "dict_get ACTION_TYPES a") (simp_all add: generate_event_def)
  obtain pts where p: "randint (fst (points_range info)) (snd (points_range info)) (points_r d) = Inr pts"
    using assms c a i
    by (cases "randint (fst (points_range info)) (snd (points_range info)) (points_r d)")
       (simp_all add: generate_event_def)
  have w: "choice WEAPONS (weapon_r d) = Inr (WEAPONS ! weapon_r d)"
    by (simp add: choice_def WEAPONS_def)
  have m: "choice MAPS (map_r d) = Inr (MAPS ! map_r d)"
    by (simp add: choice_def MAPS_def)
  have name_upd: "player_name (update_player a pts (level_u d) (pool ! player_r d)) = player_name (pool ! player_r d)"
    and id_upd: "player_id (update_player a pts (level_u d) (pool ! player_r d)) = player_id (pool ! player_r d)"
    by (simp_all add: update_player_def Let_def)
  show ?thesis
  proof (cases "a \<in> set [''kill'', ''headshot'', ''death'']")
    case True
    with assms ne c a i p w m name_upd id_upd show ?thesis
      by (intro exI[of _ a] exI[of _ info] exI[of _ pts] exI[of _ "Some (WEAPONS ! weapon_r d)"])
         (simp add: generate_event_def Let_def del: set_simps)
  next
    case False
    with assms ne c a i p w m name_upd id_upd show ?thesis
      by (intro exI[of _ a] exI[of _ info] exI[of _ pts] exI[of _ None])
         (simp add: generate_event_def Let_def del: set_simps)
  qed
qed

text \<open>On a non-empty pool the call raises nothing, whatever the draws are.\<close>

lemma ACTION_TYPES_width:
  "(a, info) \<in> set ACTION_TYPES \<Longrightarrow> 0 < snd (points_range info) + 1 - fst (points_range info)"
  by (auto simp: ACTION_TYPES_def)

lemma generate_event_succeeds:
  assumes "pool \<noteq> []"
  shows "\<exists>ev pool1. generate_event pool d = Inr (ev, pool1)"
proof -
  have c: "choice pool (player_r d) = Inr (pool ! player_r d)"
    using assms by (simp add: choice_def)
  obtain a where a: "select_action ACTION_TYPES (action_r d) = Inr a"
    using select_action_ACTION_TYPES_succeeds by blast
  obtain info where i: "dict_get ACTION_TYPES a = Inr info" and mem: "(a, info) \<in> set ACTION_TYPES"
    using dict_get_ACTION_TYPES[OF select_action_in_keys[OF a]] by blast
  have p: "randint (fst (points_range info)) (snd (points_range info)) (points_r d) =
             Inr (fst (points_range info) + int (points_r d))"
    using ACTION_TYPES_width[OF mem] by (simp add: randint_def)
  have w: "choice WEAPONS (weapon_r d) = Inr (WEAPONS ! weapon_r d)"
    by (simp add: choice_def WEAPONS_def)
  have m: "choice MAPS (map_r d) = Inr (MAPS ! map_r d)"
    by (simp add: choice_def MAPS_def)
  show ?thesis
    by (simp add: generate_event_def c a i p w m Let_def del: set_simps)
qed

section \<open>Two calls evaluated\<close>

lemma random_times_death_example: "random_times 4503599627370496 100 = 50"
  by (simp add: random_times_def round_to_double_def round_half_even_def significand_shift.simps)

lemma random_times_level_up_example: "random_times 8646911284551352 100 = 96"
  by (simp add: random_times_def round_to_double_def round_half_even_def significand_shift.simps)

lemma select_action_death_example:
  "select_action ACTION_TYPES 4503599627370496 = Inr ''death''"
  by (simp add: select_action_ACTION_TYPES_eq random_times_death_example bisect_right.simps)

lemma select_action_level_up_example:
  "select_action ACTION_TYPES 8646911284551352 = Inr ''level_up''"
  by (simp add: select_action_ACTION_TYPES_eq random_times_level_up_example bisect_right.simps)

lemma dict_get_death: "dict_get ACTION_TYPES ''death'' = Inr \<lparr>weight = 35, points_range = (-25, -10)\<rparr>"
  by (simp add: dict_get_def ACTION_TYPES_def)

lemma dict_get_level_up: "dict_get ACTION_TYPES ''level_up'' = Inr \<lparr>weight = 3, points_range = (100, 250)\<rparr>"
  by (simp add: dict_get_def ACTION_TYPES_def)

lemma generate_event_death_example:
  "generate_event [alice, bob] death_draws =
     Inr (\<lparr>ev_player_id = ''PLAYER_0000'', ev_player_name = ''Alice'', ev_action_type = ''death'',
           ev_points = -10, ev_level = 1, ev_weapon = Some ''AK-47'', ev_map_name = ''de_dust2''\<rparr>,
          [alice\<lparr>total_points := -10, deaths := 1\<rparr>, bob])"
  by (simp add: generate_event_def death_draws_def select_action_death_example choice_def dict_get_death
      randint_def update_player_def WEAPONS_def MAPS_def alice_def Let_def)

lemma generate_event_level_up_example:
  "generate_event [alice, bob] level_up_draws =
     Inr (\<lparr>ev_player_id = ''PLAYER_0001'', ev_player_name = ''Bob'', ev_action_type = ''level_up'',
           ev_points = 100, ev_level = 100, ev_weapon = None, ev_map_name = ''de_mirage''\<rparr>,
          [alice, bob\<lparr>level := 100, total_points := 100\<rparr>])"
  by (simp add: generate_event_def level_up_draws_def select_action_level_up_example choice_def dict_get_level_up
      randint_def update_player_def WEAPONS_def MAPS_def bob_def Let_def)

section \<open>The mutation of the selected player\<close>

lemma update_player_kills:
  "kills (update_player a pts roll p) =
     (if a = ''kill'' \<or> a = ''headshot'' then kills p + 1 else kills p)"
  by (simp add: update_player_def Let_def)

lemma update_player_deaths:
  "deaths (update_player a pts roll p) = (if a = ''death'' then deaths p + 1 else deaths p)"
  by (simp add: update_player_def Let_def)

lemma update_player_level:
  "level (update_player a pts roll p) =
     (if (a = ''level_up'' \<or> roll < 0.05) \<and> level p < 100 then level p + 1 else level p)"
  by (simp add: update_player_def Let_def)

lemma update_player_total_points:
  "total_points (update_player a pts roll p) = total_points p + pts"
  by (simp add: update_player_def Let_def)

lemma update_player_id: "player_id (update_player a pts roll p) = player_id p"
  by (simp add: update_player_def Let_def)

lemma update_player_name: "player_name (update_player a pts roll p) = player_name p"
  by (simp add: update_player_def Let_def)

lemma generate_event_selected:
  assumes "generate_event pool d = Inr (ev, pool1)"
  shows "\<exists>pts. pool1 = pool[player_r d := update_player (ev_action_type ev) (ev_points ev) (level_u d) (pool ! player_r d)]"
  using generate_event_InrD[OF assms] by auto

text \<open>
  Claim C4. On a \<^verbatim>\<open>generate_event\<close> call that returns an event, the selected player's
  \<open>kills\<close> counter grows by exactly one and \<open>deaths\<close> is unchanged when the action is
  \<^verbatim>\<open>kill\<close> or \<^verbatim>\<open>headshot\<close>; \<open>deaths\<close> grows by exactly one and \<open>kills\<close> is unchanged
  when the action is \<^verbatim>\<open>death\<close>; for every other action neither counter changes.
\<close>

theorem kills_deaths_counters:
  assumes "generate_event pool d = Inr (ev, pool1)" and "player_r d < length pool"
  shows "(ev_action_type ev = ''kill'' \<or> ev_action_type ev = ''headshot'' \<longrightarrow>
            kills (pool1 ! player_r d) = kills (pool ! player_r d) + 1 \<and>
            deaths (pool1 ! player_r d) = deaths (pool ! player_r d)) \<and>
         (ev_action_type ev = ''death'' \<longrightarrow>
            deaths (pool1 ! player_r d) = deaths (pool ! player_r d) + 1 \<and>
            kills (pool1 ! player_r d) = kills (pool ! player_r d)) \<and>
         (ev_action_type ev \<notin> {''kill'', ''headshot'', ''death''} \<longrightarrow>
            kills (pool1 ! player_r d) = kills (pool ! player_r d) \<and>
            deaths (pool1 ! player_r d) = deaths (pool ! player_r d))"
proof -
  from generate_event_selected[OF assms(1)]
  have "pool1 ! player_r d =
          update_player (ev_action_type ev) (ev_points ev) (level_u d) (pool ! player_r d)"
    using assms(2) by auto
  then show ?thesis
    by (simp add: update_player_kills update_player_deaths)
qed

theorem kills_deaths_counters_witness:
  "generate_event [alice, bob] death_draws =
     Inr (\<lparr>ev_player_id = ''PLAYER_0000'', ev_player_name = ''Alice'', ev_action_type = ''death'',
           ev_points = -10, ev_level = 1, ev_weapon = Some ''AK-47'', ev_map_name = ''de_dust2''\<rparr>,
          [alice\<lparr>total_points := -10, deaths := 1\<rparr>, bob]) \<and>
   player_r death_draws < length [alice, bob] \<and>
   deaths ([alice\<lparr>total_points := -10, deaths := 1\<rparr>, bob] ! player_r death_draws) =
     deaths ([alice, bob] ! player_r death_draws) + 1 \<and>
   kills ([alice\<lparr>total_points := -10, deaths := 1\<rparr>, bob] ! player_r death_draws) =
     kills ([alice, bob] ! player_r death_draws)"
proof -
  have ix: "player_r death_draws < length [alice, bob]"
    by (simp add: death_draws_def)
  from kills_deaths_counters[OF generate_event_death_example ix] generate_event_death_example ix
  show ?thesis by simp
qed

section \<open>Runs of calls\<close>

lemma generate_event_length:
  "generate_event pool d = Inr (ev, pool1) \<Longrightarrow> length pool1 = length pool"
  using generate_event_selected by fastforce

lemma generate_event_nth:
  assumes "generate_event pool d = Inr (ev, pool1)" and "j < length pool"
  shows "pool1 ! j =
           (if j = player_r d
            then update_player (ev_action_type ev) (ev_points ev) (level_u d) (pool ! j)
            else pool ! j)"
  using generate_event_selected[OF assms(1)] assms(2) by auto

lemma run_events_ConsD:
  assumes "run_events pool (d # ds) = Inr (evs, pool2)"
  obtains ev pool1 evs1 where "generate_event pool d = Inr (ev, pool1)"
    and "run_events pool1 ds = Inr (evs1, pool2)" and "evs = ev # evs1"
  using assms by (auto split: sum.splits prod.splits)

lemma run_events_length:
  "run_events pool ds = Inr (evs, pool2) \<Longrightarrow> length pool2 = length pool"
proof (induction ds arbitrary: pool evs)
  case Nil
  then show ?case by simp
next
  case (Cons d ds)
  from Cons.prems obtain ev pool1 evs1 where
    g: "generate_event pool d = Inr (ev, pool1)" and r: "run_events pool1 ds = Inr (evs1, pool2)"
    by (rule run_events_ConsD)
  from Cons.IH[OF r] generate_event_length[OF g] show ?case by simp
qed

text \<open>A property of single players that every call preserves is preserved by a run.\<close>

lemma run_events_preserves:
  assumes step: "\<And>a pts roll p. R p (update_player a pts roll p)"
    and refl: "\<And>p. R p p" and trans: "\<And>p q r. R p q \<Longrightarrow> R q r \<Longrightarrow> R p r"
    and run: "run_events pool ds = Inr (evs, pool2)" and j: "j < length pool"
  shows "R (pool ! j) (pool2 ! j)"
  using run j
proof (induction ds arbitrary: pool evs)
  case Nil
  then show ?case by (simp add: refl)
next
  case (Cons d ds)
  from Cons.prems(1) obtain ev pool1 evs1 where
    g: "generate_event pool d = Inr (ev, pool1)" and r: "run_events pool1 ds = Inr (evs1, pool2)"
    by (rule run_events_ConsD)
  have "R (pool ! j) (pool1 ! j)"
    using generate_event_nth[OF g Cons.prems(2)] by (simp add: step refl)
  moreover have "R (pool1 ! j) (pool2 ! j)"
    using Cons.IH[OF r] Cons.prems(2) generate_event_length[OF g] by simp
  ultimately show ?case by (rule trans)
qed

lemma run_events_level:
  assumes "run_events pool ds = Inr (evs, pool2)" and "j < length pool"
  shows "level (pool ! j) \<le> level (pool2 ! j) \<and>
         (level (pool ! j) \<le> 100 \<longrightarrow> level (pool2 ! j) \<le> 100)"
  by (rule run_events_preserves[where R = "\<lambda>p q. level p \<le> level q \<and> (level p \<le> 100 \<longrightarrow> level q \<le> 100)",
        OF _ _ _ assms])
     (auto simp: update_player_level)

lemma run_events_identity:
  assumes "run_events pool ds = Inr (evs, pool2)" and "j < length pool"
  shows "player_id (pool2 ! j) = player_id (pool ! j) \<and> player_name (pool2 ! j) = player_name (pool ! j)"
  by (rule run_events_preserves[where R = "\<lambda>p q. player_id q = player_id p \<and> player_name q = player_name p",
        OF _ _ _ assms])
     (auto simp: update_player_id update_player_name)

text \<open>
  Claim C2. On every \<^verbatim>\<open>generate_event\<close> call that returns an event, the level of the
  selected player grows by exactly one when the action is \<^verbatim>\<open>level_up\<close> or the roll is
  below 0.05, and the level is below 100; otherwise it is unchanged. The two triggers
  together still give one increment. Hence over any run of calls the level of every
  player never decreases, and a level of at most 100 stays at most 100.
\<close>

theorem level_rule:
  "(\<forall>pool d ev pool1.
      generate_event pool d = Inr (ev, pool1) \<and> player_r d < length pool \<longrightarrow>
      level (pool1 ! player_r d) =
        (if (ev_action_type ev = ''level_up'' \<or> level_u d < 0.05) \<and> level (pool ! player_r d) < 100
         then level (pool ! player_r d) + 1
         else level (pool ! player_r d))) \<and>
   (\<forall>pool ds evs pool2 j.
      run_events pool ds = Inr (evs, pool2) \<and> j < length pool \<longrightarrow>
      level (pool ! j) \<le> level (pool2 ! j) \<and>
      (level (pool ! j) \<le> 100 \<longrightarrow> level (pool2 ! j) \<le> 100))"
proof (intro conjI allI impI)
  fix pool d ev pool1
  assume "generate_event pool d = Inr (ev, pool1) \<and> player_r d < length pool"
  then show "level (pool1 ! player_r d) =
        (if (ev_action_type ev = ''level_up'' \<or> level_u d < 0.05) \<and> level (pool ! player_r d) < 100
         then level (pool ! player_r d) + 1
         else level (pool ! player_r d))"
    using generate_event_nth[of pool d ev pool1 "player_r d"] by (simp add: update_player_level)
next
  fix pool ds evs pool2 j
  assume a: "run_events pool ds = Inr (evs, pool2) \<and> j < length pool"
  then show "level (pool ! j) \<le> level (pool2 ! j)"
    using run_events_level by blast
  assume "level (pool ! j) \<le> 100"
  with a show "level (pool2 ! j) \<le> 100"
    using run_events_level by blast
qed

lemma generate_event_level_up_again:
  "generate_event [alice, bob\<lparr>level := 100, total_points := 100\<rparr>] level_up_draws =
     Inr (\<lparr>ev_player_id = ''PLAYER_0001'', ev_player_name = ''Bob'', ev_action_type = ''level_up'',
           ev_points = 100, ev_level = 100, ev_weapon = None, ev_map_name = ''de_mirage''\<rparr>,
          [alice, bob\<lparr>level := 100, total_points := 200\<rparr>])"
  by (simp add: generate_event_def level_up_draws_def select_action_level_up_example choice_def dict_get_level_up
      randint_def update_player_def WEAPONS_def MAPS_def bob_def Let_def)

lemma run_events_level_up_twice:
  "run_events [alice, bob] [level_up_draws, level_up_draws] =
     Inr ([\<lparr>ev_player_id = ''PLAYER_0001'', ev_player_name = ''Bob'', ev_action_type = ''level_up'',
            ev_points = 100, ev_level = 100, ev_weapon = None, ev_map_name = ''de_mirage''\<rparr>,
           \<lparr>ev_player_id = ''PLAYER_0001'', ev_player_name = ''Bob'', ev_action_type = ''level_up'',
            ev_points = 100, ev_level = 100, ev_weapon = None, ev_map_name = ''de_mirage''\<rparr>],
          [alice, bob\<lparr>level := 100, total_points := 200\<rparr>])"
  by (simp add: generate_event_level_up_example generate_event_level_up_again)

theorem level_rule_witness:
  "generate_event [alice, bob] level_up_draws =
     Inr (\<lparr>ev_player_id = ''PLAYER_0001'', ev_player_name = ''Bob'', ev_action_type = ''level_up'',
           ev_points = 100, ev_level = 100, ev_weapon = None, ev_map_name = ''de_mirage''\<rparr>,
          [alice, bob\<lparr>level := 100, total_points := 100\<rparr>]) \<and>
   player_r level_up_draws < length [alice, bob] \<and>
   level ([alice, bob] ! player_r level_up_draws) = 99 \<and>
   level ([alice, bob\<lparr>level := 100, total_points := 100\<rparr>] ! player_r level_up_draws) = 99 + 1 \<and>
   run_events [alice, bob] [level_up_draws, level_up_draws] =
     Inr ([\<lparr>ev_player_id = ''PLAYER_0001'', ev_player_name = ''Bob'', ev_action_type = ''level_up'',
            ev_points = 100, ev_level = 100, ev_weapon = None, ev_map_name = ''de_mirage''\<rparr>,
           \<lparr>ev_player_id = ''PLAYER_0001'', ev_player_name = ''Bob'', ev_action_type = ''level_up'',
            ev_points = 100, ev_level = 100, ev_weapon = None, ev_map_name = ''de_mirage''\<rparr>],
          [alice, bob\<lparr>level := 100, total_points := 200\<rparr>]) \<and>
   level ([alice, bob] ! 1) \<le> level ([alice, bob\<lparr>level := 100, total_points := 200\<rparr>] ! 1) \<and>
   level ([alice, bob\<lparr>level := 100, total_points := 200\<rparr>] ! 1) \<le> 100"
proof -
  have ix: "player_r level_up_draws < length [alice, bob]"
    by (simp add: level_up_draws_def)
  have l: "level ([alice, bob] ! player_r level_up_draws) = 99"
    by (simp add: level_up_draws_def bob_def)
  have j: "(1::nat) < length [alice, bob]" by simp
  have l1: "level ([alice, bob] ! 1) \<le> 100" by (simp add: bob_def)
  have a: "ev_action_type \<lparr>ev_player_id = ''PLAYER_0001'', ev_player_name = ''Bob'', ev_action_type = ''level_up'',
           ev_points = 100, ev_level = 100, ev_weapon = None, ev_map_name = ''de_mirage''\<rparr> = ''level_up''"
    by simp
  note step = level_rule[THEN conjunct1, rule_format,
      OF conjI[OF generate_event_level_up_example ix]]
  note run = level_rule[THEN conjunct2, rule_format,
      OF conjI[OF run_events_level_up_twice j]]
  from step have "level ([alice, bob\<lparr>level := 100, total_points := 100\<rparr>] ! player_r level_up_draws) = 99 + 1"
    unfolding a l by simp
  with run l1 generate_event_level_up_example run_events_level_up_twice ix l
  show ?thesis by blast
qed

section \<open>Frame and event fields\<close>

lemma generate_event_others_unchanged:
  assumes g: "generate_event pool d = Inr (ev, pool1)"
  shows "length pool1 = length pool \<and>
      (\<forall>j < length pool. j \<noteq> player_r d \<longrightarrow> pool1 ! j = pool ! j) \<and>
      map player_id pool1 = map player_id pool \<and>
      map player_name pool1 = map player_name pool"
proof -
  have len: "length pool1 = length pool"
    by (rule generate_event_length[OF g])
  moreover have "\<forall>j < length pool. j \<noteq> player_r d \<longrightarrow> pool1 ! j = pool ! j"
    using generate_event_nth[OF g] by simp
  moreover have "map player_id pool1 = map player_id pool"
    using len generate_event_nth[OF g]
    by (intro nth_equalityI) (simp_all add: update_player_id)
  moreover have "map player_name pool1 = map player_name pool"
    using len generate_event_nth[OF g]
    by (intro nth_equalityI) (simp_all add: update_player_name)
  ultimately show ?thesis by blast
qed

lemma run_events_ids_names:
  assumes r: "run_events pool ds = Inr (evs, pool2)"
  shows "map player_id pool2 = map player_id pool \<and>
         map player_name pool2 = map player_name pool"
proof
  show "map player_id pool2 = map player_id pool"
    using run_events_length[OF r] run_events_identity[OF r]
    by (intro nth_equalityI) simp_all
  show "map player_name pool2 = map player_name pool"
    using run_events_length[OF r] run_events_identity[OF r]
    by (intro nth_equalityI) simp_all
qed

text \<open>
  Claim C7. A \<^verbatim>\<open>generate_event\<close> call that returns an event leaves the pool at its
  length, leaves every player other than the selected one unchanged, and leaves every
  \<open>player_id\<close> and \<open>player_name\<close> as it was; over any run of calls the ids and names
  of the pool never change. The pool is the only state of the model.
\<close>

theorem generate_event_frame:
  "(\<forall>pool d ev pool1.
      generate_event pool d = Inr (ev, pool1) \<longrightarrow>
      length pool1 = length pool \<and>
      (\<forall>j < length pool. j \<noteq> player_r d \<longrightarrow> pool1 ! j = pool ! j) \<and>
      map player_id pool1 = map player_id pool \<and>
      map player_name pool1 = map player_name pool) \<and>
   (\<forall>pool ds evs pool2.
      run_events pool ds = Inr (evs, pool2) \<longrightarrow>
      map player_id pool2 = map player_id pool \<and>
      map player_name pool2 = map player_name pool)"
  using generate_event_others_unchanged run_events_ids_names by blast

theorem generate_event_frame_witness:
  "generate_event [alice, bob] death_draws =
     Inr (\<lparr>ev_player_id = ''PLAYER_0000'', ev_player_name = ''Alice'', ev_action_type = ''death'',
           ev_points = -10, ev_level = 1, ev_weapon = Some ''AK-47'', ev_map_name = ''de_dust2''\<rparr>,
          [alice\<lparr>total_points := -10, deaths := 1\<rparr>, bob]) \<and>
   (1::nat) < length [alice, bob] \<and> 1 \<noteq> player_r death_draws \<and>
   [alice\<lparr>total_points := -10, deaths := 1\<rparr>, bob] ! 1 = [alice, bob] ! 1 \<and>
   map player_name [alice\<lparr>total_points := -10, deaths := 1\<rparr>, bob] = map player_name [alice, bob]"
proof -
  have j: "(1::nat) < length [alice, bob]" "1 \<noteq> player_r death_draws"
    by (simp_all add: death_draws_def)
  note f = generate_event_frame[THEN conjunct1, rule_format, OF generate_event_death_example]
  from f j have "[alice\<lparr>total_points := -10, deaths := 1\<rparr>, bob] ! 1 = [alice, bob] ! 1"
    by blast
  with f j generate_event_death_example show ?thesis by blast
qed

text \<open>
  Claim C5. In every event that \<^verbatim>\<open>generate_event\<close> returns, with the indices drawn
  inside their sequences, the weapon is present exactly when the action is \<^verbatim>\<open>kill\<close>,
  \<^verbatim>\<open>headshot\<close> or \<^verbatim>\<open>death\<close>, and is then an entry of the weapon catalog; the map
  name is an entry of the map catalog; and the level is the one the selected player has
  in the pool after the call.
\<close>

theorem event_fields:
  assumes "generate_event pool d = Inr (ev, pool1)"
    and "player_r d < length pool" and "weapon_r d < length WEAPONS" and "map_r d < length MAPS"
  shows "(ev_weapon ev \<noteq> None \<longleftrightarrow> ev_action_type ev \<in> {''kill'', ''headshot'', ''death''}) \<and>
         (\<forall>w. ev_weapon ev = Some w \<longrightarrow> w \<in> set WEAPONS) \<and>
         ev_map_name ev \<in> set MAPS \<and>
         ev_level ev = level (pool1 ! player_r d)"
proof -
  from generate_event_InrD[OF assms(1)] obtain a info pts weapon where
    w: "if a \<in> set [''kill'', ''headshot'', ''death''] then weapon = Some (WEAPONS ! weapon_r d)
        else weapon = None"
    and ev: "ev = \<lparr>ev_player_id = player_id (pool ! player_r d),
                 ev_player_name = player_name (pool ! player_r d),
                 ev_action_type = a, ev_points = pts,
                 ev_level = level (update_player a pts (level_u d) (pool ! player_r d)),
                 ev_weapon = weapon, ev_map_name = MAPS ! map_r d\<rparr>"
    and p: "pool1 = pool[player_r d := update_player a pts (level_u d) (pool ! player_r d)]"
    by blast
  have "ev_weapon ev \<noteq> None \<longleftrightarrow> ev_action_type ev \<in> {''kill'', ''headshot'', ''death''}"
    using w by (auto simp: ev split: if_splits)
  moreover have "\<forall>w. ev_weapon ev = Some w \<longrightarrow> w \<in> set WEAPONS"
    using w assms(3) by (auto simp: ev split: if_splits)
  moreover have "ev_map_name ev \<in> set MAPS"
    using assms(4) by (simp add: ev)
  moreover have "ev_level ev = level (pool1 ! player_r d)"
    using assms(2) by (simp add: ev p)
  ultimately show ?thesis by blast
qed

theorem event_fields_witness:
  "generate_event [alice, bob] level_up_draws =
     Inr (\<lparr>ev_player_id = ''PLAYER_0001'', ev_player_name = ''Bob'', ev_action_type = ''level_up'',
           ev_points = 100, ev_level = 100, ev_weapon = None, ev_map_name = ''de_mirage''\<rparr>,
          [alice, bob\<lparr>level := 100, total_points := 100\<rparr>]) \<and>
   player_r level_up_draws < length [alice, bob] \<and>
   weapon_r level_up_draws < length WEAPONS \<and> map_r level_up_draws < length MAPS \<and>
   ''de_mirage'' \<in> set MAPS \<and>
   level ([alice, bob] ! player_r level_up_draws) = 99 \<and>
   level ([alice, bob\<lparr>level := 100, total_points := 100\<rparr>] ! player_r level_up_draws) = 100"
proof -
  have h: "player_r level_up_draws < length [alice, bob]"
    "weapon_r level_up_draws < length WEAPONS" "map_r level_up_draws < length MAPS"
    by (simp_all add: level_up_draws_def WEAPONS_def MAPS_def)
  have l: "level ([alice, bob] ! player_r level_up_draws) = 99"
    by (simp add: level_up_draws_def bob_def)
  from event_fields[OF generate_event_level_up_example h] h l generate_event_level_up_example
  show ?thesis by simp
qed

section \<open>Points\<close>

lemma dict_get_InrD: "dict_get c a = Inr info \<Longrightarrow> (a, info) \<in> set c"
  by (auto simp: dict_get_def split: option.splits dest: map_of_SomeD)

lemma randint_InrD: "randint lo hi r = Inr pts \<Longrightarrow> pts = lo + int r"
  by (auto simp: randint_def split: if_splits)

lemma ACTION_TYPES_min_points:
  "(a, info) \<in> set ACTION_TYPES \<Longrightarrow> a \<noteq> ''death'' \<Longrightarrow> 5 \<le> fst (points_range info)"
  by (auto simp: ACTION_TYPES_def)

lemma ACTION_TYPES_negative_iff:
  "(a, info) \<in> set ACTION_TYPES \<Longrightarrow>
     (\<exists>v \<in> {fst (points_range info) .. snd (points_range info)}. v < 0) \<longleftrightarrow> a = ''death''"
proof -
  have "\<exists>v\<in>{- 25 .. - 10 :: int}. v < 0"
    by (rule bexI[of _ "-25"]) simp_all
  then show "(a, info) \<in> set ACTION_TYPES \<Longrightarrow>
     (\<exists>v \<in> {fst (points_range info) .. snd (points_range info)}. v < 0) \<longleftrightarrow> a = ''death''"
    by (auto simp: ACTION_TYPES_def)
qed

lemma generate_event_action:
  assumes g: "generate_event pool d = Inr (ev, pool1)"
  shows "\<exists>info. select_action ACTION_TYPES (action_r d) = Inr (ev_action_type ev) \<and>
           dict_get ACTION_TYPES (ev_action_type ev) = Inr info \<and>
           randint (fst (points_range info)) (snd (points_range info)) (points_r d) =
             Inr (ev_points ev)"
proof -
  from generate_event_InrD[OF g] obtain a info pts weapon where
    s: "select_action ACTION_TYPES (action_r d) = Inr a"
    and i: "dict_get ACTION_TYPES a = Inr info"
    and r: "randint (fst (points_range info)) (snd (points_range info)) (points_r d) = Inr pts"
    and ev: "ev = \<lparr>ev_player_id = player_id (pool ! player_r d),
                 ev_player_name = player_name (pool ! player_r d),
                 ev_action_type = a, ev_points = pts,
                 ev_level = level (update_player a pts (level_u d) (pool ! player_r d)),
                 ev_weapon = weapon, ev_map_name = MAPS ! map_r d\<rparr>"
    by blast
  have "ev_action_type ev = a" "ev_points ev = pts" by (simp_all add: ev)
  with s i r show ?thesis by blast
qed

lemma generate_event_points:
  assumes g: "generate_event pool d = Inr (ev, pool1)"
  shows "\<exists>info. (ev_action_type ev, info) \<in> set ACTION_TYPES \<and>
           ev_points ev = fst (points_range info) + int (points_r d)"
proof -
  from generate_event_action[OF g] obtain info where
    i: "dict_get ACTION_TYPES (ev_action_type ev) = Inr info"
    and r: "randint (fst (points_range info)) (snd (points_range info)) (points_r d) = Inr (ev_points ev)"
    by blast
  from dict_get_InrD[OF i] randint_InrD[OF r] show ?thesis by blast
qed

lemma generate_event_total_points:
  assumes g: "generate_event pool d = Inr (ev, pool1)" and j: "player_r d < length pool"
  shows "total_points (pool1 ! player_r d) = total_points (pool ! player_r d) + ev_points ev"
  using generate_event_nth[OF g j] by (simp add: update_player_total_points)

text \<open>
  Claim C10. In the action catalog the points range of \<^verbatim>\<open>death\<close> is the only one that
  holds a negative value, and every other range starts at 5 or above. So on every call
  that returns an event other than a \<^verbatim>\<open>death\<close>, the selected player's
  \<open>total_points\<close> strictly grows, and when the total has dropped the event was a
  \<^verbatim>\<open>death\<close>.
\<close>

theorem death_only_negative:
  "(\<forall>(a, info) \<in> set ACTION_TYPES.
      (\<exists>v \<in> {fst (points_range info) .. snd (points_range info)}. v < 0) \<longleftrightarrow> a = ''death'') \<and>
   (\<forall>(a, info) \<in> set ACTION_TYPES. a \<noteq> ''death'' \<longrightarrow> 5 \<le> fst (points_range info)) \<and>
   (\<forall>pool d ev pool1.
      generate_event pool d = Inr (ev, pool1) \<and> player_r d < length pool \<longrightarrow>
      (ev_action_type ev \<noteq> ''death'' \<longrightarrow>
         total_points (pool ! player_r d) < total_points (pool1 ! player_r d)) \<and>
      (total_points (pool1 ! player_r d) < total_points (pool ! player_r d) \<longrightarrow>
         ev_action_type ev = ''death''))"
proof -
  have step: "total_points (pool ! player_r d) < total_points (pool1 ! player_r d)"
    if g: "generate_event pool d = Inr (ev, pool1)" and j: "player_r d < length pool"
      and nd: "ev_action_type ev \<noteq> ''death''" for pool d ev pool1
  proof -
    from generate_event_points[OF g] obtain info where
      "(ev_action_type ev, info) \<in> set ACTION_TYPES"
      "ev_points ev = fst (points_range info) + int (points_r d)" by blast
    with ACTION_TYPES_min_points[OF _ nd] have "0 < ev_points ev" by fastforce
    with generate_event_total_points[OF g j] show ?thesis by simp
  qed
  have "\<forall>pool d ev pool1.
      generate_event pool d = Inr (ev, pool1) \<and> player_r d < length pool \<longrightarrow>
      (ev_action_type ev \<noteq> ''death'' \<longrightarrow>
         total_points (pool ! player_r d) < total_points (pool1 ! player_r d)) \<and>
      (total_points (pool1 ! player_r d) < total_points (pool ! player_r d) \<longrightarrow>
         ev_action_type ev = ''death'')"
    using step by (meson less_asym)
  moreover have "\<forall>(a, info) \<in> set ACTION_TYPES.
      (\<exists>v \<in> {fst (points_range info) .. snd (points_range info)}. v < 0) \<longleftrightarrow> a = ''death''"
    using ACTION_TYPES_negative_iff by blast
  moreover have "\<forall>(a, info) \<in> set ACTION_TYPES. a \<noteq> ''death'' \<longrightarrow> 5 \<le> fst (points_range info)"
    using ACTION_TYPES_min_points by blast
  ultimately show ?thesis by blast
qed

theorem death_only_negative_witness:
  "generate_event [alice, bob] level_up_draws =
     Inr (\<lparr>ev_player_id = ''PLAYER_0001'', ev_player_name = ''Bob'', ev_action_type = ''level_up'',
           ev_points = 100, ev_level = 100, ev_weapon = None, ev_map_name = ''de_mirage''\<rparr>,
          [alice, bob\<lparr>level := 100, total_points := 100\<rparr>]) \<and>
   player_r level_up_draws < length [alice, bob] \<and>
   ''level_up'' \<noteq> ''death'' \<and>
   total_points ([alice, bob] ! player_r level_up_draws) <
     total_points ([alice, bob\<lparr>level := 100, total_points := 100\<rparr>] ! player_r level_up_draws) \<and>
   (''assist'', \<lparr>weight = 8, points_range = (5, 15)\<rparr>) \<in> set ACTION_TYPES \<and>
   5 \<le> fst (points_range \<lparr>weight = 8, points_range = (5, 15)\<rparr>)"
proof -
  have ix: "player_r level_up_draws < length [alice, bob]"
    by (simp add: level_up_draws_def)
  have m: "(''assist'', \<lparr>weight = 8, points_range = (5, 15)\<rparr>) \<in> set ACTION_TYPES"
    by (simp add: ACTION_TYPES_def)
  note t = death_only_negative[THEN conjunct2, THEN conjunct2, rule_format,
      OF conjI[OF generate_event_level_up_example ix], THEN conjunct1, rule_format]
  note c = death_only_negative[THEN conjunct2, THEN conjunct1, rule_format, OF m]
  from t c ix m generate_event_level_up_example show ?thesis by simp
qed

section \<open>The initial pool\<close>

lemma digit_val_digit_char: "d < 10 \<Longrightarrow> digit_val (digit_char d) = d"
proof -
  assume "d < 10"
  then have "d \<in> {0, 1, 2, 3, 4, 5, 6, 7, 8, 9}" by auto
  then show ?thesis
    by (auto simp: digit_val_def digit_char_def)
qed

lemma read_decimal_snoc: "read_decimal (s @ [c]) = 10 * read_decimal s + digit_val c"
  by (simp add: read_decimal_def)

lemma read_decimal_decimal: "read_decimal (decimal n) = n"
proof (induction n rule: decimal.induct)
  case (1 n)
  show ?case
  proof (cases "n < 10")
    case True
    then show ?thesis
      by (subst decimal.simps) (simp add: read_decimal_def digit_val_digit_char)
  next
    case False
    then have "read_decimal (decimal n) = 10 * read_decimal (decimal (n div 10)) + digit_val (digit_char (n mod 10))"
      by (subst decimal.simps) (simp add: read_decimal_snoc)
    also have "\<dots> = 10 * (n div 10) + n mod 10"
      using "1.IH"[OF False] by (simp add: digit_val_digit_char)
    finally show ?thesis by simp
  qed
qed

lemma foldl_zeros: "foldl (\<lambda>acc c. 10 * acc + digit_val c) 0 (replicate k (CHR ''0'')) = 0"
  by (induction k) (simp_all add: digit_val_def)

lemma read_decimal_format_04d: "read_decimal (format_04d i) = i"
  using read_decimal_decimal[of i]
  by (simp add: format_04d_def read_decimal_def foldl_zeros)

lemma inj_format_04d: "inj format_04d"
  by (rule inj_on_inverseI[where g = read_decimal]) (rule read_decimal_format_04d)

lemma init_loop_eq:
  "init_loop range_list names rs pool = Inr (pool @ map (new_player names rs) range_list)"
  by (induction range_list arbitrary: pool) (simp_all add: randint_def new_player_def)

lemma init_player_pool_eq:
  "init_player_pool pool sz names rs = Inr (pool @ map (new_player names rs) [0 ..< nat sz])"
  by (simp add: init_player_pool_def init_loop_eq)

lemma distinct_new_player_ids: "distinct (map player_id (map (new_player names rs) [0 ..< n]))"
proof -
  have "inj (\<lambda>i. ''PLAYER_'' @ format_04d i)"
    using inj_format_04d by (auto simp: inj_def)
  moreover have "map player_id (map (new_player names rs) [0 ..< n]) = map (\<lambda>i. ''PLAYER_'' @ format_04d i) [0 ..< n]"
    by (simp add: new_player_def)
  ultimately show ?thesis by (simp add: distinct_map inj_on_subset[OF _ subset_UNIV] del: map_map)
qed

lemma length_decimal_le: "n < 10 ^ k \<Longrightarrow> 0 < k \<Longrightarrow> length (decimal n) \<le> k"
proof (induction k arbitrary: n)
  case 0
  then show ?case by simp
next
  case (Suc k)
  show ?case
  proof (cases "n < 10")
    case True
    then show ?thesis by (subst decimal.simps) simp
  next
    case False
    with Suc.prems have k: "0 < k" by (cases k) auto
    have "n div 10 < 10 ^ k" using Suc.prems(1) by (simp add: less_mult_imp_div_less mult.commute)
    from Suc.IH[OF this k] False show ?thesis by (subst decimal.simps) simp
  qed
qed

lemma length_decimal_pos: "0 < length (decimal n)"
  by (subst decimal.simps) simp

lemma length_format_04d: "i < 10000 \<Longrightarrow> length (format_04d i) = 4"
  using length_decimal_le[of i 4] by (simp add: format_04d_def)

text \<open>
  Claim C8. For every size \<open>n \<ge> 1\<close>, with each level draw below 50 as \<^verbatim>\<open>_randbelow(50)\<close>
  gives it, \<^verbatim>\<open>init_player_pool\<close> on the empty pool returns a pool of exactly \<open>n\<close>
  players whose ids are pairwise distinct; player \<open>i\<close> has the id \<^verbatim>\<open>PLAYER_\<close> followed by
  \<open>i\<close> in decimal, padded with zeros to four digits, a level from 1 to 50, and
  \<open>total_points\<close>, \<open>kills\<close> and \<open>deaths\<close> equal to zero.
\<close>

theorem init_player_pool_correct:
  assumes "1 \<le> n" and "\<forall>i < nat n. rs i < 50"
  shows "\<exists>pool. init_player_pool [] n names rs = Inr pool \<and>
           length pool = nat n \<and>
           distinct (map player_id pool) \<and>
           (\<forall>i < nat n.
              player_id (pool ! i) = ''PLAYER_'' @ format_04d i \<and>
              (i < 10000 \<longrightarrow> length (format_04d i) = 4) \<and>
              1 \<le> level (pool ! i) \<and> level (pool ! i) \<le> 50 \<and>
              total_points (pool ! i) = 0 \<and> kills (pool ! i) = 0 \<and> deaths (pool ! i) = 0)"
proof -
  let ?pool = "map (new_player names rs) [0 ..< nat n]"
  have "init_player_pool [] n names rs = Inr ?pool"
    by (simp add: init_player_pool_eq)
  moreover have "length ?pool = nat n" by simp
  moreover have "distinct (map player_id ?pool)" by (rule distinct_new_player_ids)
  moreover have "\<forall>i < nat n.
              player_id (?pool ! i) = ''PLAYER_'' @ format_04d i \<and>
              (i < 10000 \<longrightarrow> length (format_04d i) = 4) \<and>
              1 \<le> level (?pool ! i) \<and> level (?pool ! i) \<le> 50 \<and>
              total_points (?pool ! i) = 0 \<and> kills (?pool ! i) = 0 \<and> deaths (?pool ! i) = 0"
    using assms(2) by (auto simp: new_player_def length_format_04d)
  ultimately show ?thesis by blast
qed

lemma format_04d_0: "format_04d 0 = ''0000''"
  by (simp add: format_04d_def decimal.simps[of 0] digit_char_def numeral_eq_Suc)

lemma format_04d_1: "format_04d (Suc 0) = ''0001''"
  by (simp add: format_04d_def decimal.simps[of "Suc 0"] digit_char_def numeral_eq_Suc)

lemma init_player_pool_example:
  "init_player_pool [] 2 (\<lambda>i. if i = 0 then ''Alice'' else ''Bob'') (\<lambda>_. 6) =
     Inr [\<lparr>player_id = ''PLAYER_0000'', player_name = ''Alice'', level = 7,
           total_points = 0, kills = 0, deaths = 0\<rparr>,
          \<lparr>player_id = ''PLAYER_0001'', player_name = ''Bob'', level = 7,
           total_points = 0, kills = 0, deaths = 0\<rparr>]"
  by (simp add: init_player_pool_eq new_player_def upt_rec[of 0] upt_rec[of "Suc 0"] numeral_2_eq_2
      format_04d_0 format_04d_1)

theorem init_player_pool_correct_witness:
  "(1::int) \<le> 2 \<and> (\<lambda>_. 6) (0::nat) < (50::nat) \<and> (\<lambda>_. 6) (1::nat) < (50::nat) \<and>
   (\<exists>pool. init_player_pool [] 2 (\<lambda>i. if i = 0 then ''Alice'' else ''Bob'') (\<lambda>_. 6) = Inr pool \<and>
      pool = [\<lparr>player_id = ''PLAYER_0000'', player_name = ''Alice'', level = 7,
               total_points = 0, kills = 0, deaths = 0\<rparr>,
              \<lparr>player_id = ''PLAYER_0001'', player_name = ''Bob'', level = 7,
               total_points = 0, kills = 0, deaths = 0\<rparr>] \<and>
      length pool = 2 \<and> distinct (map player_id pool) \<and>
      (\<forall>i < 2. 1 \<le> level (pool ! i) \<and> level (pool ! i) \<le> 50 \<and> total_points (pool ! i) = 0))"
proof -
  have h1: "(1::int) \<le> 2" by simp
  have h2: "\<forall>i < nat 2. (\<lambda>_. 6) i < (50::nat)" by simp
  from init_player_pool_correct[OF h1 h2, of "\<lambda>i. if i = 0 then ''Alice'' else ''Bob''"]
  obtain pool where p: "init_player_pool [] 2 (\<lambda>i. if i = 0 then ''Alice'' else ''Bob'') (\<lambda>_. 6) = Inr pool"
    and len: "length pool = nat 2" and dist: "distinct (map player_id pool)"
    and each: "\<forall>i < nat 2.
              player_id (pool ! i) = ''PLAYER_'' @ format_04d i \<and>
              (i < 10000 \<longrightarrow> length (format_04d i) = 4) \<and>
              1 \<le> level (pool ! i) \<and> level (pool ! i) \<le> 50 \<and>
              total_points (pool ! i) = 0 \<and> kills (pool ! i) = 0 \<and> deaths (pool ! i) = 0"
    by blast
  from p have eq: "pool = [\<lparr>player_id = ''PLAYER_0000'', player_name = ''Alice'', level = 7,
               total_points = 0, kills = 0, deaths = 0\<rparr>,
              \<lparr>player_id = ''PLAYER_0001'', player_name = ''Bob'', level = 7,
               total_points = 0, kills = 0, deaths = 0\<rparr>]"
    unfolding init_player_pool_example by simp
  have "\<forall>i < 2. 1 \<le> level (pool ! i) \<and> level (pool ! i) \<le> 50 \<and> total_points (pool ! i) = 0"
    using each by simp
  moreover have "length pool = 2" using len by simp
  ultimately have "\<exists>pool. init_player_pool [] 2 (\<lambda>i. if i = 0 then ''Alice'' else ''Bob'') (\<lambda>_. 6) = Inr pool \<and>
      pool = [\<lparr>player_id = ''PLAYER_0000'', player_name = ''Alice'', level = 7,
               total_points = 0, kills = 0, deaths = 0\<rparr>,
              \<lparr>player_id = ''PLAYER_0001'', player_name = ''Bob'', level = 7,
               total_points = 0, kills = 0, deaths = 0\<rparr>] \<and>
      length pool = 2 \<and> distinct (map player_id pool) \<and>
      (\<forall>i < 2. 1 \<le> level (pool ! i) \<and> level (pool ! i) \<le> 50 \<and> total_points (pool ! i) = 0)"
    using p eq dist by blast
  then show ?thesis by simp
qed

section \<open>Points are accumulated\<close>

lemma generate_event_ev_player_id:
  assumes g: "generate_event pool d = Inr (ev, pool1)"
  shows "ev_player_id ev = player_id (pool ! player_r d)"
proof -
  from generate_event_InrD[OF g] obtain a info pts weapon where
    ev: "ev = \<lparr>ev_player_id = player_id (pool ! player_r d),
                 ev_player_name = player_name (pool ! player_r d),
                 ev_action_type = a, ev_points = pts,
                 ev_level = level (update_player a pts (level_u d) (pool ! player_r d)),
                 ev_weapon = weapon, ev_map_name = MAPS ! map_r d\<rparr>"
    by blast
  show ?thesis by (simp add: ev)
qed

lemma run_events_total_points:
  assumes "run_events pool ds = Inr (evs, pool2)"
    and "distinct (map player_id pool)"
    and "\<forall>d \<in> set ds. player_r d < length pool"
    and "j < length pool"
  shows "total_points (pool2 ! j) =
           total_points (pool ! j) +
           sum_list (map ev_points (filter (\<lambda>e. ev_player_id e = player_id (pool ! j)) evs))"
  using assms
proof (induction ds arbitrary: pool evs)
  case Nil
  then show ?case by simp
next
  case (Cons d ds)
  from Cons.prems(1) obtain ev pool1 evs1 where
    g: "generate_event pool d = Inr (ev, pool1)" and r: "run_events pool1 ds = Inr (evs1, pool2)"
    and evs: "evs = ev # evs1"
    by (rule run_events_ConsD)
  have len: "length pool1 = length pool" by (rule generate_event_length[OF g])
  have ids: "map player_id pool1 = map player_id pool"
    using generate_event_others_unchanged[OF g] by blast
  have idj: "player_id (pool1 ! j) = player_id (pool ! j)"
    using ids Cons.prems(4) len by (metis nth_map)
  have ix: "player_r d < length pool" using Cons.prems(3) by simp
  have sel: "ev_player_id ev = player_id (pool ! j) \<longleftrightarrow> player_r d = j"
    using generate_event_ev_player_id[OF g] Cons.prems(2,4) ix
    by (auto simp: distinct_conv_nth)
  have step: "total_points (pool1 ! j) =
      total_points (pool ! j) + (if player_r d = j then ev_points ev else 0)"
    using generate_event_nth[OF g Cons.prems(4)] by (auto simp: update_player_total_points)
  have "total_points (pool2 ! j) =
           total_points (pool1 ! j) +
           sum_list (map ev_points (filter (\<lambda>e. ev_player_id e = player_id (pool1 ! j)) evs1))"
    using Cons.IH[OF r] Cons.prems(2,3,4) ids len by simp
  then show ?case
    unfolding evs idj step using sel by simp
qed

lemma main_cycle_RunningD:
  assumes "main_cycle s c = (Running, s1)"
  shows "\<exists>ev. generate_event (PLAYER_POOL s) (fst c) = Inr (ev, PLAYER_POOL s1)"
  using assms by (auto simp: main_cycle_def split: sum.splits prod.splits if_splits)

lemma main_loop_run_events:
  "main_loop s cs = (Running, s2) \<Longrightarrow>
     \<exists>evs. run_events (PLAYER_POOL s) (map fst cs) = Inr (evs, PLAYER_POOL s2)"
proof (induction cs arbitrary: s)
  case Nil
  then show ?case by simp
next
  case (Cons c cs)
  from Cons.prems obtain s1 where c: "main_cycle s c = (Running, s1)"
    and l: "main_loop s1 cs = (Running, s2)"
    by (auto split: prod.splits loop_status.splits)
  from main_cycle_RunningD[OF c] obtain ev where
    g: "generate_event (PLAYER_POOL s) (fst c) = Inr (ev, PLAYER_POOL s1)" by blast
  from Cons.IH[OF l] obtain evs where "run_events (PLAYER_POOL s1) (map fst cs) = Inr (evs, PLAYER_POOL s2)"
    by blast
  with g show ?case by simp
qed

lemma main_cycle_insert_fails_example:
  "main_cycle start_state (level_up_draws, insert_fails) =
     (Running, \<lparr>PLAYER_POOL = [alice, bob\<lparr>level := 100, total_points := 100\<rparr>], event_count = 0\<rparr>)"
  by (simp add: main_cycle_def start_state_def generate_event_level_up_example insert_event_def
      insert_fails_def)

lemma main_cycle_insert_succeeds_example:
  "main_cycle \<lparr>PLAYER_POOL = [alice, bob\<lparr>level := 100, total_points := 100\<rparr>], event_count = 0\<rparr>
       (level_up_draws, insert_succeeds) =
     (Running, \<lparr>PLAYER_POOL = [alice, bob\<lparr>level := 100, total_points := 200\<rparr>], event_count = 1\<rparr>)"
  by (simp add: main_cycle_def generate_event_level_up_again insert_event_def insert_succeeds_def)

lemma main_loop_example:
  "main_loop start_state [(level_up_draws, insert_fails), (level_up_draws, insert_succeeds)] =
     (Running, \<lparr>PLAYER_POOL = [alice, bob\<lparr>level := 100, total_points := 200\<rparr>], event_count = 1\<rparr>)"
  by (simp add: main_cycle_insert_fails_example main_cycle_insert_succeeds_example)

lemma main_loop_rollback_raises_example:
  "main_loop start_state [(level_up_draws, rollback_raises), (level_up_draws, insert_succeeds)] =
     (Stopped DatabaseError,
      \<lparr>PLAYER_POOL = [alice, bob\<lparr>level := 100, total_points := 100\<rparr>], event_count = 0\<rparr>)"
  by (simp add: main_cycle_def start_state_def generate_event_level_up_example insert_event_def
      rollback_raises_def)

text \<open>
  Claim C1. After any run of \<^verbatim>\<open>generate_event\<close> calls on a pool with distinct ids, the
  \<open>total_points\<close> of every player is its value before the run plus the sum of the points
  of the events that carry this player's id. In the main loop, whatever each insert
  reported, the pool is the one these calls leave behind, so a player that started at
  zero has exactly the sum of the points of its events, persisted or not.
\<close>

theorem total_points_is_sum:
  "(\<forall>pool ds evs pool2 j.
      run_events pool ds = Inr (evs, pool2) \<and> distinct (map player_id pool) \<and>
      (\<forall>d \<in> set ds. player_r d < length pool) \<and> j < length pool \<longrightarrow>
      total_points (pool2 ! j) =
        total_points (pool ! j) +
        sum_list (map ev_points (filter (\<lambda>e. ev_player_id e = player_id (pool ! j)) evs))) \<and>
   (\<forall>s cs s2 j.
      main_loop s cs = (Running, s2) \<and> distinct (map player_id (PLAYER_POOL s)) \<and>
      (\<forall>c \<in> set cs. player_r (fst c) < length (PLAYER_POOL s)) \<and>
      j < length (PLAYER_POOL s) \<and> total_points (PLAYER_POOL s ! j) = 0 \<longrightarrow>
      (\<exists>evs. run_events (PLAYER_POOL s) (map fst cs) = Inr (evs, PLAYER_POOL s2) \<and>
         total_points (PLAYER_POOL s2 ! j) =
           sum_list (map ev_points
             (filter (\<lambda>e. ev_player_id e = player_id (PLAYER_POOL s ! j)) evs))))"
proof (rule conjI)
  show "\<forall>pool ds evs pool2 j.
      run_events pool ds = Inr (evs, pool2) \<and> distinct (map player_id pool) \<and>
      (\<forall>d \<in> set ds. player_r d < length pool) \<and> j < length pool \<longrightarrow>
      total_points (pool2 ! j) =
        total_points (pool ! j) +
        sum_list (map ev_points (filter (\<lambda>e. ev_player_id e = player_id (pool ! j)) evs))"
    using run_events_total_points by blast
next
  have "\<exists>evs. run_events (PLAYER_POOL s) (map fst cs) = Inr (evs, PLAYER_POOL s2) \<and>
         total_points (PLAYER_POOL s2 ! j) =
           sum_list (map ev_points
             (filter (\<lambda>e. ev_player_id e = player_id (PLAYER_POOL s ! j)) evs))"
    if l: "main_loop s cs = (Running, s2)" and d: "distinct (map player_id (PLAYER_POOL s))"
      and ix: "\<forall>c \<in> set cs. player_r (fst c) < length (PLAYER_POOL s)"
      and j: "j < length (PLAYER_POOL s)" and z: "total_points (PLAYER_POOL s ! j) = 0"
    for s cs s2 j
  proof -
    from main_loop_run_events[OF l] obtain evs where
      r: "run_events (PLAYER_POOL s) (map fst cs) = Inr (evs, PLAYER_POOL s2)" by blast
    have "\<forall>d \<in> set (map fst cs). player_r d < length (PLAYER_POOL s)"
      using ix by simp
    from run_events_total_points[OF r d this j] z r show ?thesis by auto
  qed
  then show "\<forall>s cs s2 j.
      main_loop s cs = (Running, s2) \<and> distinct (map player_id (PLAYER_POOL s)) \<and>
      (\<forall>c \<in> set cs. player_r (fst c) < length (PLAYER_POOL s)) \<and>
      j < length (PLAYER_POOL s) \<and> total_points (PLAYER_POOL s ! j) = 0 \<longrightarrow>
      (\<exists>evs. run_events (PLAYER_POOL s) (map fst cs) = Inr (evs, PLAYER_POOL s2) \<and>
         total_points (PLAYER_POOL s2 ! j) =
           sum_list (map ev_points
             (filter (\<lambda>e. ev_player_id e = player_id (PLAYER_POOL s ! j)) evs)))"
    by blast
qed

theorem total_points_is_sum_witness:
  "main_loop start_state [(level_up_draws, insert_fails), (level_up_draws, insert_succeeds)] =
     (Running, \<lparr>PLAYER_POOL = [alice, bob\<lparr>level := 100, total_points := 200\<rparr>], event_count = 1\<rparr>) \<and>
   distinct (map player_id (PLAYER_POOL start_state)) \<and>
   player_r (fst (level_up_draws, insert_fails)) < length (PLAYER_POOL start_state) \<and>
   player_r (fst (level_up_draws, insert_succeeds)) < length (PLAYER_POOL start_state) \<and>
   1 < length (PLAYER_POOL start_state) \<and>
   total_points (PLAYER_POOL start_state ! 1) = 0 \<and>
   (\<exists>evs. run_events [alice, bob] [level_up_draws, level_up_draws] =
            Inr (evs, [alice, bob\<lparr>level := 100, total_points := 200\<rparr>]) \<and>
          sum_list (map ev_points (filter (\<lambda>e. ev_player_id e = ''PLAYER_0001'') evs)) = 200)"
proof -
  have d: "distinct (map player_id (PLAYER_POOL start_state))"
    by (simp add: start_state_def alice_def bob_def)
  have ix: "\<forall>c \<in> set [(level_up_draws, insert_fails), (level_up_draws, insert_succeeds)].
      player_r (fst c) < length (PLAYER_POOL start_state)"
    by (simp add: start_state_def level_up_draws_def)
  have j: "1 < length (PLAYER_POOL start_state)"
    by (simp add: start_state_def)
  have z: "total_points (PLAYER_POOL start_state ! 1) = 0"
    by (simp add: start_state_def bob_def)
  have id: "player_id (PLAYER_POOL start_state ! 1) = ''PLAYER_0001''"
    by (simp add: start_state_def bob_def)
  note t = total_points_is_sum[THEN conjunct2, rule_format,
      OF conjI[OF main_loop_example conjI[OF d conjI[OF ix conjI[OF j z]]]]]
  from t have "\<exists>evs. run_events [alice, bob] [level_up_draws, level_up_draws] =
            Inr (evs, [alice, bob\<lparr>level := 100, total_points := 200\<rparr>]) \<and>
          sum_list (map ev_points (filter (\<lambda>e. ev_player_id e = ''PLAYER_0001'') evs)) = 200"
    unfolding id by (simp add: start_state_def)
  with main_loop_example d ix j z show ?thesis by simp
qed

section \<open>A failed insert\<close>

text \<open>
  Claim C6, as amended. When persisting the event of a cycle fails, that is, when the
  \<^verbatim>\<open>try\<close> block of \<^verbatim>\<open>insert_event\<close> raises, the cycle leaves \<open>event_count\<close> as it
  was and keeps the pool that \<^verbatim>\<open>generate_event\<close> mutated. When the rollback of the handler
  returns, \<^verbatim>\<open>insert_event\<close> returns \<^verbatim>\<open>False\<close> and the loop goes on with the next cycle;
  when the rollback raises in turn, the exception leaves \<^verbatim>\<open>insert_event\<close> and the handler
  of line 340 ends the loop.
\<close>

theorem persistence_failure:
  assumes "generate_event (PLAYER_POOL s) d = Inr (ev, pool1)"
    and "\<not> try_ok conn"
  shows "event_count (snd (main_cycle s (d, conn))) = event_count s \<and>
         PLAYER_POOL (snd (main_cycle s (d, conn))) = pool1 \<and>
         (rollback_ok conn \<longrightarrow>
            insert_event conn ev = Inr False \<and>
            main_cycle s (d, conn) = (Running, s\<lparr>PLAYER_POOL := pool1\<rparr>) \<and>
            main_loop s ((d, conn) # cs) = main_loop (s\<lparr>PLAYER_POOL := pool1\<rparr>) cs) \<and>
         (\<not> rollback_ok conn \<longrightarrow>
            insert_event conn ev = Inl DatabaseError \<and>
            main_loop s ((d, conn) # cs) = (Stopped DatabaseError, s\<lparr>PLAYER_POOL := pool1\<rparr>))"
proof (cases "rollback_ok conn")
  case True
  with assms have "insert_event conn ev = Inr False"
    by (simp add: insert_event_def)
  with assms True show ?thesis by (simp add: main_cycle_def)
next
  case False
  with assms have "insert_event conn ev = Inl DatabaseError"
    by (simp add: insert_event_def)
  with assms False show ?thesis by (simp add: main_cycle_def)
qed

theorem persistence_failure_witness:
  "generate_event (PLAYER_POOL start_state) level_up_draws =
     Inr (\<lparr>ev_player_id = ''PLAYER_0001'', ev_player_name = ''Bob'', ev_action_type = ''level_up'',
           ev_points = 100, ev_level = 100, ev_weapon = None, ev_map_name = ''de_mirage''\<rparr>,
          [alice, bob\<lparr>level := 100, total_points := 100\<rparr>]) \<and>
   \<not> try_ok insert_fails \<and> rollback_ok insert_fails \<and>
   insert_event insert_fails
     \<lparr>ev_player_id = ''PLAYER_0001'', ev_player_name = ''Bob'', ev_action_type = ''level_up'',
      ev_points = 100, ev_level = 100, ev_weapon = None, ev_map_name = ''de_mirage''\<rparr> = Inr False \<and>
   main_cycle start_state (level_up_draws, insert_fails) =
     (Running, \<lparr>PLAYER_POOL = [alice, bob\<lparr>level := 100, total_points := 100\<rparr>], event_count = 0\<rparr>) \<and>
   main_loop start_state [(level_up_draws, insert_fails), (level_up_draws, insert_succeeds)] =
     main_loop \<lparr>PLAYER_POOL = [alice, bob\<lparr>level := 100, total_points := 100\<rparr>], event_count = 0\<rparr>
       [(level_up_draws, insert_succeeds)]"
proof -
  have g: "generate_event (PLAYER_POOL start_state) level_up_draws =
     Inr (\<lparr>ev_player_id = ''PLAYER_0001'', ev_player_name = ''Bob'', ev_action_type = ''level_up'',
           ev_points = 100, ev_level = 100, ev_weapon = None, ev_map_name = ''de_mirage''\<rparr>,
          [alice, bob\<lparr>level := 100, total_points := 100\<rparr>])"
    by (simp add: start_state_def generate_event_level_up_example)
  have f: "\<not> try_ok insert_fails" and r: "rollback_ok insert_fails"
    by (simp_all add: insert_fails_def)
  from persistence_failure[OF g f, of "[(level_up_draws, insert_succeeds)]"] g f r
  show ?thesis by (simp add: start_state_def)
qed

text \<open>
  The claim as first stated has the loop continue after every failed insert. With a
  database whose \<^verbatim>\<open>try\<close> block raises and whose rollback raises as well (a lost
  connection), the first cycle ends the loop and the second cycle never runs.
\<close>

theorem persistence_failure_counterexample:
  "generate_event (PLAYER_POOL start_state) level_up_draws =
     Inr (\<lparr>ev_player_id = ''PLAYER_0001'', ev_player_name = ''Bob'', ev_action_type = ''level_up'',
           ev_points = 100, ev_level = 100, ev_weapon = None, ev_map_name = ''de_mirage''\<rparr>,
          [alice, bob\<lparr>level := 100, total_points := 100\<rparr>]) \<and>
   \<not> try_ok rollback_raises \<and>
   main_loop start_state [(level_up_draws, rollback_raises), (level_up_draws, insert_succeeds)] =
     (Stopped DatabaseError,
      \<lparr>PLAYER_POOL = [alice, bob\<lparr>level := 100, total_points := 100\<rparr>], event_count = 0\<rparr>)"
  using main_loop_rollback_raises_example
  by (simp add: start_state_def generate_event_level_up_example rollback_raises_def)

section \<open>The weighted choice\<close>

subsection \<open>Rounding to a double\<close>

lemma power_two_add_Suc: "(2::nat) ^ (n + Suc k) = 2 * 2 ^ (n + k)"
  by (simp only: add_Suc_right power_Suc)

lemma significand_shift_upper: "p < 2 ^ (53 + significand_shift p)"
proof (induction p rule: significand_shift.induct)
  case (1 p)
  show ?case
  proof (cases "p < 2 ^ 53")
    case True
    then show ?thesis by (simp add: significand_shift_small)
  next
    case False
    then have s: "significand_shift p = Suc (significand_shift (p div 2))"
      by (subst significand_shift.simps) simp
    from "1.IH"[OF False] have "p div 2 < 2 ^ (53 + significand_shift (p div 2))" .
    then have "p < 2 * 2 ^ (53 + significand_shift (p div 2))" by linarith
    also have "2 * 2 ^ (53 + significand_shift (p div 2)) =
        (2::nat) ^ (53 + Suc (significand_shift (p div 2)))"
      by (rule power_two_add_Suc[symmetric])
    finally show ?thesis unfolding s .
  qed
qed

lemma significand_shift_lower:
  "0 < significand_shift p \<Longrightarrow> 2 ^ (52 + significand_shift p) \<le> p"
proof (induction p rule: significand_shift.induct)
  case (1 p)
  show ?case
  proof (cases "p < 2 ^ 53")
    case True
    with "1.prems" show ?thesis by (simp add: significand_shift_small)
  next
    case False
    then have s: "significand_shift p = Suc (significand_shift (p div 2))"
      by (subst significand_shift.simps) simp
    show ?thesis
    proof (cases "0 < significand_shift (p div 2)")
      case True
      from "1.IH"[OF False True] have "2 ^ (52 + significand_shift (p div 2)) \<le> p div 2" .
      then have "2 * 2 ^ (52 + significand_shift (p div 2)) \<le> p" by linarith
      moreover have "2 * 2 ^ (52 + significand_shift (p div 2)) =
        (2::nat) ^ (52 + Suc (significand_shift (p div 2)))"
        by (rule power_two_add_Suc[symmetric])
      ultimately show ?thesis unfolding s by (simp only:)
    next
      case z: False
      then have "significand_shift p = Suc 0" by (simp add: s)
      moreover have "(2::nat) ^ (52 + Suc 0) = 2 ^ 53" by simp
      ultimately show ?thesis using False by simp
    qed
  qed
qed

lemma significand_shift_mono:
  assumes "p \<le> p'"
  shows "significand_shift p \<le> significand_shift p'"
proof (rule ccontr)
  assume "\<not> significand_shift p \<le> significand_shift p'"
  then have lt: "significand_shift p' < significand_shift p" by simp
  then have "(2::nat) ^ (53 + significand_shift p') \<le> 2 ^ (52 + significand_shift p)"
    by (intro power_increasing) simp_all
  moreover have "2 ^ (52 + significand_shift p) \<le> p"
    using lt by (intro significand_shift_lower) simp
  moreover have "p' < 2 ^ (53 + significand_shift p')"
    by (rule significand_shift_upper)
  ultimately show False using assms by linarith
qed

lemma round_half_even_lower: "(p div 2 ^ e) * 2 ^ e \<le> round_half_even e p"
  by (simp add: round_half_even_def Let_def)

lemma round_half_even_upper: "round_half_even e p \<le> (p div 2 ^ e + 1) * 2 ^ e"
  by (simp add: round_half_even_def Let_def)

lemma round_half_even_mono:
  assumes "p \<le> p'"
  shows "round_half_even e p \<le> round_half_even e p'"
proof (cases "p div 2 ^ e = p' div 2 ^ e")
  case True
  have "p mod 2 ^ e \<le> p' mod 2 ^ e"
    using assms True by (metis add_le_cancel_left mult_div_mod_eq)
  then show ?thesis
    using True by (auto simp: round_half_even_def Let_def)
next
  case False
  have "p div 2 ^ e \<le> p' div 2 ^ e" using assms by (rule div_le_mono)
  with False have "p div 2 ^ e + 1 \<le> p' div 2 ^ e" by simp
  then have "(p div 2 ^ e + 1) * 2 ^ e \<le> (p' div 2 ^ e) * 2 ^ e"
    by (rule mult_le_mono1)
  with round_half_even_upper[of e p] round_half_even_lower[of p' e]
  show ?thesis by linarith
qed

lemma round_to_double_mono:
  assumes "p \<le> p'"
  shows "round_to_double p \<le> round_to_double p'"
proof -
  let ?e = "significand_shift p" and ?e' = "significand_shift p'"
  have le: "?e \<le> ?e'" by (rule significand_shift_mono[OF assms])
  show ?thesis
  proof (cases "?e = ?e'")
    case True
    then show ?thesis
      unfolding round_to_double_def using round_half_even_mono[OF assms] by simp
  next
    case False
    with le have lt: "?e < ?e'" by simp
    have "p div 2 ^ ?e < 2 ^ 53"
      using significand_shift_upper[of p] by (simp add: less_mult_imp_div_less power_add)
    then have "(p div 2 ^ ?e + 1) * 2 ^ ?e \<le> 2 ^ 53 * 2 ^ ?e"
      by (intro mult_le_mono1) simp
    also have "\<dots> = 2 ^ (53 + ?e)" by (simp add: power_add)
    also have "\<dots> \<le> 2 ^ (52 + ?e')"
      using lt by (intro power_increasing) simp_all
    finally have a: "round_half_even ?e p \<le> 2 ^ (52 + ?e')"
      using round_half_even_upper[of ?e p] by linarith
    have "2 ^ (52 + ?e') \<le> p'"
      using lt by (intro significand_shift_lower) simp
    then have "2 ^ 52 \<le> p' div 2 ^ ?e'"
      by (simp add: less_eq_div_iff_mult_less_eq power_add)
    then have "2 ^ 52 * 2 ^ ?e' \<le> (p' div 2 ^ ?e') * 2 ^ ?e'"
      by (rule mult_le_mono1)
    also have "\<dots> \<le> round_half_even ?e' p'" by (rule round_half_even_lower)
    finally have b: "2 ^ (52 + ?e') \<le> round_half_even ?e' p'"
      by (simp only: power_add)
    from a b show ?thesis unfolding round_to_double_def by linarith
  qed
qed

subsection \<open>The index found by the binary search\<close>

lemma accumulate_from_nth:
  "i < length ws \<Longrightarrow> accumulate_from acc ws ! i = acc + sum_list (take (Suc i) ws)"
proof (induction ws arbitrary: acc i)
  case Nil
  then show ?case by simp
next
  case (Cons w ws)
  then show ?case by (cases i) simp_all
qed

lemma accumulate_nth: "i < length ws \<Longrightarrow> accumulate ws ! i = sum_list (take (Suc i) ws)"
  by (simp add: accumulate_def accumulate_from_nth)

lemma length_accumulate: "length (accumulate ws) = length ws"
  by (simp add: accumulate_def length_accumulate_from)

lemma last_accumulate: "ws \<noteq> [] \<Longrightarrow> last (accumulate ws) = sum_list ws"
proof -
  assume ne: "ws \<noteq> []"
  then have "accumulate ws \<noteq> []" using length_accumulate[of ws] by auto
  then have "last (accumulate ws) = accumulate ws ! (length ws - 1)"
    by (simp add: last_conv_nth length_accumulate)
  also have "\<dots> = sum_list (take (Suc (length ws - 1)) ws)"
    using ne by (intro accumulate_nth) simp
  also have "\<dots> = sum_list ws" using ne by simp
  finally show ?thesis .
qed

lemma sum_list_take_mono:
  assumes "\<forall>w \<in> set ws. (0::int) \<le> w" and "i \<le> j"
  shows "sum_list (take i ws) \<le> sum_list (take j ws)"
proof -
  have "take j ws = take i ws @ take (j - i) (drop i ws)"
    using assms(2) by (metis le_add_diff_inverse take_add)
  moreover have "0 \<le> sum_list (take (j - i) (drop i ws))"
    using assms(1) by (intro sum_list_nonneg) (meson in_set_dropD in_set_takeD)
  ultimately show ?thesis by simp
qed

lemma sorted_accumulate:
  assumes "\<forall>w \<in> set ws. (0::int) \<le> w"
  shows "sorted (map real_of_int (accumulate ws))"
  unfolding sorted_iff_nth_mono
proof (intro allI impI)
  fix i j
  assume "i \<le> j" and "j < length (map real_of_int (accumulate ws))"
  then have j: "j < length ws" and i: "i < length ws"
    by (simp_all add: length_accumulate)
  have "sum_list (take (Suc i) ws) \<le> sum_list (take (Suc j) ws)"
    using assms \<open>i \<le> j\<close> by (intro sum_list_take_mono) simp_all
  then show "map real_of_int (accumulate ws) ! i \<le> map real_of_int (accumulate ws) ! j"
    using i j by (simp add: length_accumulate accumulate_nth)
qed

lemma bisect_right_step:
  "lo < hi \<Longrightarrow>
     bisect_right a x lo hi =
       (if x < a ! ((lo + hi) div 2) then bisect_right a x lo ((lo + hi) div 2)
        else bisect_right a x ((lo + hi) div 2 + 1) hi)"
  by (subst bisect_right.simps) (simp add: Let_def)

lemma bisect_right_done: "\<not> lo < hi \<Longrightarrow> bisect_right a x lo hi = lo"
  by (subst bisect_right.simps) simp

lemma bisect_right_partition:
  assumes "sorted a" and "lo \<le> hi" and "hi \<le> bound" and "bound \<le> length a"
    and "\<forall>i < lo. a ! i \<le> x" and "\<forall>i. hi \<le> i \<and> i < bound \<longrightarrow> x < a ! i"
  shows "(\<forall>i < bisect_right a x lo hi. a ! i \<le> x) \<and>
         (\<forall>i. bisect_right a x lo hi \<le> i \<and> i < bound \<longrightarrow> x < a ! i)"
  using assms
proof (induction a x lo hi rule: bisect_right.induct)
  case (1 a x lo hi)
  show ?case
  proof (cases "lo < hi")
    case False
    with "1.prems" have "lo = hi" by simp
    with "1.prems" False show ?thesis by (simp add: bisect_right_done)
  next
    case True
    define mid where "mid = (lo + hi) div 2"
    have m: "lo \<le> mid" "mid < hi" "mid < length a" "mid \<le> bound"
      using True "1.prems"(3,4) by (auto simp: mid_def)
    show ?thesis
    proof (cases "x < a ! mid")
      case lt: True
      have up: "\<forall>i. mid \<le> i \<and> i < bound \<longrightarrow> x < a ! i"
      proof (intro allI impI)
        fix i assume "mid \<le> i \<and> i < bound"
        then have "a ! mid \<le> a ! i"
          using "1.prems"(1,4) by (simp add: sorted_nth_mono)
        with lt show "x < a ! i" by simp
      qed
      have "(\<forall>i < bisect_right a x lo mid. a ! i \<le> x) \<and>
         (\<forall>i. bisect_right a x lo mid \<le> i \<and> i < bound \<longrightarrow> x < a ! i)"
        by (rule "1.IH"(1)[OF True mid_def lt "1.prems"(1) m(1) m(4) "1.prems"(4) "1.prems"(5) up])
      moreover have "bisect_right a x lo hi = bisect_right a x lo mid"
        using lt by (simp add: bisect_right_step[OF True] mid_def)
      ultimately show ?thesis by simp
    next
      case ge: False
      have low: "\<forall>i < mid + 1. a ! i \<le> x"
      proof (intro allI impI)
        fix i assume "i < mid + 1"
        then have "a ! i \<le> a ! mid" using "1.prems"(1) m(3) by (simp add: sorted_nth_mono)
        with ge show "a ! i \<le> x" by simp
      qed
      have "mid + 1 \<le> hi" using m(2) by simp
      then have "(\<forall>i < bisect_right a x (mid + 1) hi. a ! i \<le> x) \<and>
         (\<forall>i. bisect_right a x (mid + 1) hi \<le> i \<and> i < bound \<longrightarrow> x < a ! i)"
        by (rule "1.IH"(2)[OF True mid_def ge "1.prems"(1) _ "1.prems"(3) "1.prems"(4) low "1.prems"(6)])
      moreover have "bisect_right a x lo hi = bisect_right a x (mid + 1) hi"
        using ge by (simp add: bisect_right_step[OF True] mid_def)
      ultimately show ?thesis by simp
    qed
  qed
qed

lemma length_catalog_weights: "length (catalog_weights catalog) = length catalog"
  by (simp add: catalog_weights_def)

lemma select_action_eq:
  assumes "catalog \<noteq> []" and "float_of_int (weight_total catalog) = Inr t" and "0 < t"
  shows "select_action catalog r =
           Inr (map fst catalog ! selected_index catalog (random_times r t))"
proof -
  have ne: "catalog_weights catalog \<noteq> []"
    using assms(1) by (simp add: catalog_weights_def)
  then have "accumulate (catalog_weights catalog) \<noteq> []"
    using length_accumulate[of "catalog_weights catalog"] by auto
  moreover have "last (accumulate (catalog_weights catalog)) = weight_total catalog"
    using last_accumulate[OF ne] by (simp add: weight_total_def)
  ultimately show ?thesis
    using assms(2,3)
    by (simp add: select_action_def choices_def Let_def selected_index_def length_accumulate
        catalog_weights_def[symmetric] length_catalog_weights)
qed

lemma weight_before_Suc:
  "i < length catalog \<Longrightarrow>
     weight_before catalog (Suc i) = weight_before catalog i + weight (snd (catalog ! i))"
  by (simp add: weight_before_def take_Suc_conv_app_nth length_catalog_weights)
     (simp add: catalog_weights_def case_prod_beta)

lemma weight_before_mono:
  "\<forall>(a, info) \<in> set catalog. 0 \<le> weight info \<Longrightarrow> i \<le> j \<Longrightarrow>
     weight_before catalog i \<le> weight_before catalog j"
  unfolding weight_before_def
  by (intro sum_list_take_mono) (auto simp: catalog_weights_def)

lemma weight_before_length: "weight_before catalog (length catalog) = weight_total catalog"
  by (simp add: weight_before_def weight_total_def length_catalog_weights[symmetric])

lemma cum_nth:
  "k < length catalog \<Longrightarrow>
     map real_of_int (accumulate (catalog_weights catalog)) ! k =
       real_of_int (weight_before catalog (Suc k))"
  by (simp add: length_accumulate length_catalog_weights accumulate_nth weight_before_def)

lemma selected_index_less:
  "catalog \<noteq> [] \<Longrightarrow> selected_index catalog x < length catalog"
proof -
  assume "catalog \<noteq> []"
  then have "0 < length catalog" by simp
  moreover have "selected_index catalog x \<le> length catalog - 1"
    unfolding selected_index_def using bisect_right_bounds[of 0 "length catalog - 1"] by simp
  ultimately show ?thesis by linarith
qed

lemma selected_index_iff:
  assumes nonneg: "\<forall>(a, info) \<in> set catalog. 0 \<le> weight info"
    and x: "0 \<le> x" and i: "i < length catalog"
  shows "selected_index catalog x = i \<longleftrightarrow>
           real_of_int (weight_before catalog i) \<le> x \<and>
           (Suc i < length catalog \<longrightarrow> x < real_of_int (weight_before catalog (Suc i)))"
proof -
  let ?a = "map real_of_int (accumulate (catalog_weights catalog))"
  let ?n = "length catalog"
  let ?p = "selected_index catalog x"
  have len: "length ?a = ?n" by (simp add: length_accumulate length_catalog_weights)
  have srt: "sorted ?a"
    using nonneg by (intro sorted_accumulate) (auto simp: catalog_weights_def)
  have part: "(\<forall>k < ?p. ?a ! k \<le> x) \<and> (\<forall>k. ?p \<le> k \<and> k < ?n - 1 \<longrightarrow> x < ?a ! k)"
    unfolding selected_index_def
    by (rule bisect_right_partition[OF srt]) (simp_all add: length_accumulate length_catalog_weights)
  have ne: "catalog \<noteq> []" using i by auto
  have p_lt: "?p < ?n" by (rule selected_index_less[OF ne])
  show ?thesis
  proof
    assume eq: "?p = i"
    have "real_of_int (weight_before catalog i) \<le> x"
    proof (cases i)
      case 0
      then show ?thesis using x by (simp add: weight_before_def)
    next
      case (Suc k)
      then have "k < ?p" using eq by simp
      with part have "?a ! k \<le> x" by blast
      moreover have "k < ?n" using Suc i by simp
      ultimately show ?thesis using cum_nth[of k catalog] Suc by simp
    qed
    moreover have "x < real_of_int (weight_before catalog (Suc i))" if "Suc i < ?n"
    proof -
      from that have "?p \<le> i \<and> i < ?n - 1" using eq by simp
      with part have "x < ?a ! i" by blast
      then show ?thesis using cum_nth[OF i] by simp
    qed
    ultimately show "real_of_int (weight_before catalog i) \<le> x \<and>
           (Suc i < ?n \<longrightarrow> x < real_of_int (weight_before catalog (Suc i)))" by blast
  next
    assume b: "real_of_int (weight_before catalog i) \<le> x \<and>
           (Suc i < ?n \<longrightarrow> x < real_of_int (weight_before catalog (Suc i)))"
    show "?p = i"
    proof (rule ccontr)
      assume "?p \<noteq> i"
      then consider "?p < i" | "i < ?p" by linarith
      then show False
      proof cases
        case 1
        then have "?p \<le> ?p \<and> ?p < ?n - 1" using i by simp
        with part have "x < ?a ! ?p" by blast
        also have "?a ! ?p = real_of_int (weight_before catalog (Suc ?p))"
          using cum_nth[OF p_lt] .
        also have "\<dots> \<le> real_of_int (weight_before catalog i)"
          using weight_before_mono[OF nonneg, of "Suc ?p" i] 1 by simp
        finally show False using b by simp
      next
        case 2
        with part have "?a ! i \<le> x" by blast
        moreover have "Suc i < ?n" using 2 p_lt by simp
        ultimately show False using b cum_nth[OF i] by simp
      qed
    qed
  qed
qed

lemma random_times_nonneg: "0 \<le> random_times r t"
  by (simp add: random_times_def)

lemma select_action_iff:
  assumes dist: "distinct (map fst catalog)"
    and nonneg: "\<forall>(a, info) \<in> set catalog. 0 \<le> weight info"
    and fl: "float_of_int (weight_total catalog) = Inr t" and pos: "0 < t"
    and i: "i < length catalog"
  shows "select_action catalog r = Inr (fst (catalog ! i)) \<longleftrightarrow>
           real_of_int (weight_before catalog i) \<le> random_times r t \<and>
           (Suc i < length catalog \<longrightarrow>
              random_times r t < real_of_int (weight_before catalog i + weight (snd (catalog ! i))))"
proof -
  have ne: "catalog \<noteq> []" using i by auto
  have p: "selected_index catalog (random_times r t) < length catalog"
    by (rule selected_index_less[OF ne])
  have "select_action catalog r = Inr (fst (catalog ! i)) \<longleftrightarrow>
          map fst catalog ! selected_index catalog (random_times r t) = map fst catalog ! i"
    using select_action_eq[OF ne fl pos, of r] i by simp
  also have "\<dots> \<longleftrightarrow> selected_index catalog (random_times r t) = i"
    by (rule nth_eq_iff_index_eq[OF dist]) (simp_all add: p i)
  also have "\<dots> \<longleftrightarrow>
           real_of_int (weight_before catalog i) \<le> random_times r t \<and>
           (Suc i < length catalog \<longrightarrow>
              random_times r t < real_of_int (weight_before catalog (Suc i)))"
    by (rule selected_index_iff[OF nonneg random_times_nonneg i])
  finally show ?thesis by (simp add: weight_before_Suc[OF i])
qed

lemma ACTION_TYPES_facts:
  "distinct (map fst ACTION_TYPES)" "\<forall>(a, info) \<in> set ACTION_TYPES. 0 \<le> weight info"
  "weight_total ACTION_TYPES = 100" "length ACTION_TYPES = 7"
  by (simp_all add: ACTION_TYPES_def weight_total_def catalog_weights_def)

lemma ACTION_TYPES_weight_before:
  "weight_before ACTION_TYPES 0 = 0" "weight_before ACTION_TYPES (Suc 0) = 35"
  "weight_before ACTION_TYPES 2 = 70" "weight_before ACTION_TYPES 3 = 80"
  "weight_before ACTION_TYPES 4 = 88" "weight_before ACTION_TYPES 5 = 95"
  "weight_before ACTION_TYPES 6 = 98"
  by (simp_all add: ACTION_TYPES_def weight_before_def catalog_weights_def numeral_eq_Suc)

lemma ACTION_TYPES_nth:
  "ACTION_TYPES ! 0 = (''kill'', \<lparr>weight = 35, points_range = (10, 30)\<rparr>)"
  "ACTION_TYPES ! Suc 0 = (''death'', \<lparr>weight = 35, points_range = (-25, -10)\<rparr>)"
  "ACTION_TYPES ! 2 = (''headshot'', \<lparr>weight = 10, points_range = (40, 60)\<rparr>)"
  "ACTION_TYPES ! 3 = (''assist'', \<lparr>weight = 8, points_range = (5, 15)\<rparr>)"
  "ACTION_TYPES ! 4 = (''achievement'', \<lparr>weight = 7, points_range = (50, 150)\<rparr>)"
  "ACTION_TYPES ! 5 = (''level_up'', \<lparr>weight = 3, points_range = (100, 250)\<rparr>)"
  "ACTION_TYPES ! 6 = (''defuse_bomb'', \<lparr>weight = 2, points_range = (80, 120)\<rparr>)"
  by (simp_all add: ACTION_TYPES_def)

subsection \<open>The catalog of the program\<close>

lemma random_times_100_less_iff:
  assumes lo: "round_to_double (k * 100) < c * 2 ^ 53"
    and hi: "c * 2 ^ 53 \<le> round_to_double (Suc k * 100)"
  shows "random_times r 100 < real c \<longleftrightarrow> r < Suc k"
proof -
  have "random_times r 100 < real c \<longleftrightarrow> real (round_to_double (r * 100)) < real (c * 2 ^ 53)"
    by (simp add: random_times_def pos_divide_less_eq)
  also have "\<dots> \<longleftrightarrow> round_to_double (r * 100) < c * 2 ^ 53"
    by (rule of_nat_less_iff)
  also have "\<dots> \<longleftrightarrow> r < Suc k"
  proof
    assume a: "round_to_double (r * 100) < c * 2 ^ 53"
    show "r < Suc k"
    proof (rule ccontr)
      assume "\<not> r < Suc k"
      then have "Suc k * 100 \<le> r * 100" by simp
      from round_to_double_mono[OF this] hi a show False by linarith
    qed
  next
    assume "r < Suc k"
    then have "r * 100 \<le> k * 100" by simp
    from round_to_double_mono[OF this] lo show "round_to_double (r * 100) < c * 2 ^ 53"
      by linarith
  qed
  finally show ?thesis .
qed

lemma round_to_double_boundaries:
  "round_to_double 315251973915934600 = 315251973915934592"
  "round_to_double 315251973915934700 = 315251973915934720"
  "round_to_double 630503947831869300 = 630503947831869312"
  "round_to_double 630503947831869400 = 630503947831869440"
  "round_to_double 720575940379279200 = 720575940379279232"
  "round_to_double 720575940379279300 = 720575940379279360"
  "round_to_double 792633534417207200 = 792633534417207168"
  "round_to_double 792633534417207300 = 792633534417207296"
  "round_to_double 855683929200394100 = 855683929200394112"
  "round_to_double 855683929200394200 = 855683929200394240"
  "round_to_double 882705526964617100 = 882705526964617088"
  "round_to_double 882705526964617200 = 882705526964617216"
  by (simp_all add: round_to_double_def round_half_even_def significand_shift.simps)

lemma random_times_thresholds:
  "random_times r 100 < 35 \<longleftrightarrow> r < 3152519739159347"
  "random_times r 100 < 70 \<longleftrightarrow> r < 6305039478318694"
  "random_times r 100 < 80 \<longleftrightarrow> r < 7205759403792793"
  "random_times r 100 < 88 \<longleftrightarrow> r < 7926335344172073"
  "random_times r 100 < 95 \<longleftrightarrow> r < 8556839292003942"
  "random_times r 100 < 98 \<longleftrightarrow> r < 8827055269646172"
proof -
  show "random_times r 100 < 35 \<longleftrightarrow> r < 3152519739159347"
    using random_times_100_less_iff[of 3152519739159346 35 r]
    by (simp add: round_to_double_boundaries)
  show "random_times r 100 < 70 \<longleftrightarrow> r < 6305039478318694"
    using random_times_100_less_iff[of 6305039478318693 70 r]
    by (simp add: round_to_double_boundaries)
  show "random_times r 100 < 80 \<longleftrightarrow> r < 7205759403792793"
    using random_times_100_less_iff[of 7205759403792792 80 r]
    by (simp add: round_to_double_boundaries)
  show "random_times r 100 < 88 \<longleftrightarrow> r < 7926335344172073"
    using random_times_100_less_iff[of 7926335344172072 88 r]
    by (simp add: round_to_double_boundaries)
  show "random_times r 100 < 95 \<longleftrightarrow> r < 8556839292003942"
    using random_times_100_less_iff[of 8556839292003941 95 r]
    by (simp add: round_to_double_boundaries)
  show "random_times r 100 < 98 \<longleftrightarrow> r < 8827055269646172"
    using random_times_100_less_iff[of 8827055269646171 98 r]
    by (simp add: round_to_double_boundaries)
qed

lemma float_of_int_weight_total: "float_of_int (weight_total ACTION_TYPES) = Inr 100"
  by (simp add: ACTION_TYPES_facts float_of_int_100)

lemma select_action_reference:
  "(select_action ACTION_TYPES r = Inr ''kill'' \<longleftrightarrow> r < 3152519739159347) \<and>
   (select_action ACTION_TYPES r = Inr ''death'' \<longleftrightarrow>
      3152519739159347 \<le> r \<and> r < 6305039478318694) \<and>
   (select_action ACTION_TYPES r = Inr ''headshot'' \<longleftrightarrow>
      6305039478318694 \<le> r \<and> r < 7205759403792793) \<and>
   (select_action ACTION_TYPES r = Inr ''assist'' \<longleftrightarrow>
      7205759403792793 \<le> r \<and> r < 7926335344172073) \<and>
   (select_action ACTION_TYPES r = Inr ''achievement'' \<longleftrightarrow>
      7926335344172073 \<le> r \<and> r < 8556839292003942) \<and>
   (select_action ACTION_TYPES r = Inr ''level_up'' \<longleftrightarrow>
      8556839292003942 \<le> r \<and> r < 8827055269646172) \<and>
   (select_action ACTION_TYPES r = Inr ''defuse_bomb'' \<longleftrightarrow> 8827055269646172 \<le> r)"
proof -
  note iff = select_action_iff[OF ACTION_TYPES_facts(1,2) float_of_int_weight_total, of _ r,
      unfolded ACTION_TYPES_facts(4)]
  note th = random_times_thresholds[of r]
  have ge: "35 \<le> random_times r 100 \<longleftrightarrow> 3152519739159347 \<le> r"
    "70 \<le> random_times r 100 \<longleftrightarrow> 6305039478318694 \<le> r"
    "80 \<le> random_times r 100 \<longleftrightarrow> 7205759403792793 \<le> r"
    "88 \<le> random_times r 100 \<longleftrightarrow> 7926335344172073 \<le> r"
    "95 \<le> random_times r 100 \<longleftrightarrow> 8556839292003942 \<le> r"
    "98 \<le> random_times r 100 \<longleftrightarrow> 8827055269646172 \<le> r"
    using th by (simp_all only: not_less[symmetric])
  have "select_action ACTION_TYPES r = Inr ''kill'' \<longleftrightarrow> r < 3152519739159347"
    using iff[of 0] th
    by (simp add: ACTION_TYPES_weight_before ACTION_TYPES_nth random_times_nonneg)
  moreover have "select_action ACTION_TYPES r = Inr ''death'' \<longleftrightarrow>
      3152519739159347 \<le> r \<and> r < 6305039478318694"
    using iff[of 1] th ge by (simp add: ACTION_TYPES_weight_before ACTION_TYPES_nth)
  moreover have "select_action ACTION_TYPES r = Inr ''headshot'' \<longleftrightarrow>
      6305039478318694 \<le> r \<and> r < 7205759403792793"
    using iff[of 2] th ge by (simp add: ACTION_TYPES_weight_before ACTION_TYPES_nth)
  moreover have "select_action ACTION_TYPES r = Inr ''assist'' \<longleftrightarrow>
      7205759403792793 \<le> r \<and> r < 7926335344172073"
    using iff[of 3] th ge by (simp add: ACTION_TYPES_weight_before ACTION_TYPES_nth)
  moreover have "select_action ACTION_TYPES r = Inr ''achievement'' \<longleftrightarrow>
      7926335344172073 \<le> r \<and> r < 8556839292003942"
    using iff[of 4] th ge by (simp add: ACTION_TYPES_weight_before ACTION_TYPES_nth)
  moreover have "select_action ACTION_TYPES r = Inr ''level_up'' \<longleftrightarrow>
      8556839292003942 \<le> r \<and> r < 8827055269646172"
    using iff[of 5] th ge by (simp add: ACTION_TYPES_weight_before ACTION_TYPES_nth)
  moreover have "select_action ACTION_TYPES r = Inr ''defuse_bomb'' \<longleftrightarrow> 8827055269646172 \<le> r"
    using iff[of 6] th ge by (simp add: ACTION_TYPES_weight_before ACTION_TYPES_nth)
  ultimately show ?thesis by blast
qed

lemma generate_event_action_type:
  assumes "generate_event pool d = Inr (ev, pool1)"
  shows "ev_action_type ev = a \<longleftrightarrow> select_action ACTION_TYPES (action_r d) = Inr a"
  using generate_event_action[OF assms] by auto

lemma card_nat_range: "b \<le> c \<Longrightarrow> card {r::nat. r < c \<and> a \<le> r \<and> r < b} = b - a"
proof -
  assume "b \<le> c"
  then have "{r::nat. r < c \<and> a \<le> r \<and> r < b} = {a ..< b}" by auto
  then show ?thesis by simp
qed

lemma selection_counts:
  "card {r. r < 2 ^ 53 \<and> select_action ACTION_TYPES r = Inr ''kill''} = 3152519739159347"
  "card {r. r < 2 ^ 53 \<and> select_action ACTION_TYPES r = Inr ''death''} = 3152519739159347"
  "card {r. r < 2 ^ 53 \<and> select_action ACTION_TYPES r = Inr ''headshot''} = 900719925474099"
  "card {r. r < 2 ^ 53 \<and> select_action ACTION_TYPES r = Inr ''assist''} = 720575940379280"
  "card {r. r < 2 ^ 53 \<and> select_action ACTION_TYPES r = Inr ''achievement''} = 630503947831869"
  "card {r. r < 2 ^ 53 \<and> select_action ACTION_TYPES r = Inr ''level_up''} = 270215977642230"
  "card {r. r < 2 ^ 53 \<and> select_action ACTION_TYPES r = Inr ''defuse_bomb''} = 180143985094820"
proof -
  note s = select_action_reference
  show "card {r. r < 2 ^ 53 \<and> select_action ACTION_TYPES r = Inr ''kill''} = 3152519739159347"
    using card_nat_range[of 3152519739159347 "2 ^ 53" 0] by (simp add: s)
  show "card {r. r < 2 ^ 53 \<and> select_action ACTION_TYPES r = Inr ''death''} = 3152519739159347"
    using card_nat_range[of 6305039478318694 "2 ^ 53" 3152519739159347] by (simp add: s)
  show "card {r. r < 2 ^ 53 \<and> select_action ACTION_TYPES r = Inr ''headshot''} = 900719925474099"
    using card_nat_range[of 7205759403792793 "2 ^ 53" 6305039478318694] by (simp add: s)
  show "card {r. r < 2 ^ 53 \<and> select_action ACTION_TYPES r = Inr ''assist''} = 720575940379280"
    using card_nat_range[of 7926335344172073 "2 ^ 53" 7205759403792793] by (simp add: s)
  show "card {r. r < 2 ^ 53 \<and> select_action ACTION_TYPES r = Inr ''achievement''} = 630503947831869"
    using card_nat_range[of 8556839292003942 "2 ^ 53" 7926335344172073] by (simp add: s)
  show "card {r. r < 2 ^ 53 \<and> select_action ACTION_TYPES r = Inr ''level_up''} = 270215977642230"
    using card_nat_range[of 8827055269646172 "2 ^ 53" 8556839292003942] by (simp add: s)
  show "card {r. r < 2 ^ 53 \<and> select_action ACTION_TYPES r = Inr ''defuse_bomb''} = 180143985094820"
  proof -
    have "{r. r < 2 ^ 53 \<and> select_action ACTION_TYPES r = Inr ''defuse_bomb''} =
          {8827055269646172 ..< 2 ^ 53}"
      by (auto simp: s)
    then show ?thesis by simp
  qed
qed

lemma generate_event_reference:
  assumes g: "generate_event pool d = Inr (ev, pool1)"
  shows "(ev_action_type ev = ''kill'' \<longleftrightarrow> action_r d < 3152519739159347) \<and>
      (ev_action_type ev = ''death'' \<longleftrightarrow>
         3152519739159347 \<le> action_r d \<and> action_r d < 6305039478318694) \<and>
      (ev_action_type ev = ''headshot'' \<longleftrightarrow>
         6305039478318694 \<le> action_r d \<and> action_r d < 7205759403792793) \<and>
      (ev_action_type ev = ''assist'' \<longleftrightarrow>
         7205759403792793 \<le> action_r d \<and> action_r d < 7926335344172073) \<and>
      (ev_action_type ev = ''achievement'' \<longleftrightarrow>
         7926335344172073 \<le> action_r d \<and> action_r d < 8556839292003942) \<and>
      (ev_action_type ev = ''level_up'' \<longleftrightarrow>
         8556839292003942 \<le> action_r d \<and> action_r d < 8827055269646172) \<and>
      (ev_action_type ev = ''defuse_bomb'' \<longleftrightarrow> 8827055269646172 \<le> action_r d)"
  unfolding generate_event_action_type[OF g] by (rule select_action_reference)

lemma selection_count_values:
  "selection_count ''kill'' = 3152519739159347"
  "selection_count ''death'' = 3152519739159347"
  "selection_count ''headshot'' = 900719925474099"
  "selection_count ''assist'' = 720575940379280"
  "selection_count ''achievement'' = 630503947831869"
  "selection_count ''level_up'' = 270215977642230"
  "selection_count ''defuse_bomb'' = 180143985094820"
  unfolding selection_count_def by (rule selection_counts)+

lemma selection_probabilities:
  "selection_count ''kill'' = 3152519739159347 \<and>
   selection_count ''death'' = 3152519739159347 \<and>
   selection_count ''headshot'' = 900719925474099 \<and>
   selection_count ''assist'' = 720575940379280 \<and>
   selection_count ''achievement'' = 630503947831869 \<and>
   selection_count ''level_up'' = 270215977642230 \<and>
   selection_count ''defuse_bomb'' = 180143985094820 \<and>
   \<bar>real (selection_count ''kill'') / 2 ^ 53 - 35 / 100\<bar> < 1 / 2 ^ 53 \<and>
   \<bar>real (selection_count ''death'') / 2 ^ 53 - 35 / 100\<bar> < 1 / 2 ^ 53 \<and>
   \<bar>real (selection_count ''headshot'') / 2 ^ 53 - 10 / 100\<bar> < 1 / 2 ^ 53 \<and>
   \<bar>real (selection_count ''assist'') / 2 ^ 53 - 8 / 100\<bar> < 1 / 2 ^ 53 \<and>
   \<bar>real (selection_count ''achievement'') / 2 ^ 53 - 7 / 100\<bar> < 1 / 2 ^ 53 \<and>
   \<bar>real (selection_count ''level_up'') / 2 ^ 53 - 3 / 100\<bar> < 1 / 2 ^ 53 \<and>
   \<bar>real (selection_count ''defuse_bomb'') / 2 ^ 53 - 2 / 100\<bar> < 1 / 2 ^ 53"
  by (simp add: selection_count_values)

text \<open>
  Claim C3, as amended. The action is chosen by comparing the double \<^verbatim>\<open>random() * total\<close>,
  rounded to the nearest double, with the running totals of the weights: for every catalog
  with distinct names, non-negative weights and a positive total, category \<open>i\<close> is
  selected exactly when the rounded product is at least the sum of the weights before \<open>i\<close>
  and, unless \<open>i\<close> is the last category, below that sum plus the weight of \<open>i\<close>. For the
  catalog of the program, whose weights sum to 100, every event that \<^verbatim>\<open>generate_event\<close>
  returns carries the action that the raw draw determines by six fixed thresholds; the
  numbers of raw values for the seven actions are as stated, and each divided by \<open>2 ^ 53\<close>
  is within \<open>1 / 2 ^ 53\<close> of weight / 100.
\<close>

theorem weighted_choice:
  "(\<forall>catalog i r t.
      distinct (map fst catalog) \<and> (\<forall>(a, info) \<in> set catalog. 0 \<le> weight info) \<and>
      float_of_int (weight_total catalog) = Inr t \<and> 0 < t \<and> i < length catalog \<longrightarrow>
      (select_action catalog r = Inr (fst (catalog ! i)) \<longleftrightarrow>
         real_of_int (weight_before catalog i) \<le> random_times r t \<and>
         (Suc i < length catalog \<longrightarrow>
            random_times r t <
              real_of_int (weight_before catalog i + weight (snd (catalog ! i)))))) \<and>
   (\<forall>pool d ev pool1.
      generate_event pool d = Inr (ev, pool1) \<longrightarrow>
      (ev_action_type ev = ''kill'' \<longleftrightarrow> action_r d < 3152519739159347) \<and>
      (ev_action_type ev = ''death'' \<longleftrightarrow>
         3152519739159347 \<le> action_r d \<and> action_r d < 6305039478318694) \<and>
      (ev_action_type ev = ''headshot'' \<longleftrightarrow>
         6305039478318694 \<le> action_r d \<and> action_r d < 7205759403792793) \<and>
      (ev_action_type ev = ''assist'' \<longleftrightarrow>
         7205759403792793 \<le> action_r d \<and> action_r d < 7926335344172073) \<and>
      (ev_action_type ev = ''achievement'' \<longleftrightarrow>
         7926335344172073 \<le> action_r d \<and> action_r d < 8556839292003942) \<and>
      (ev_action_type ev = ''level_up'' \<longleftrightarrow>
         8556839292003942 \<le> action_r d \<and> action_r d < 8827055269646172) \<and>
      (ev_action_type ev = ''defuse_bomb'' \<longleftrightarrow> 8827055269646172 \<le> action_r d)) \<and>
   weight_total ACTION_TYPES = 100 \<and>
   selection_count ''kill'' = 3152519739159347 \<and>
   selection_count ''death'' = 3152519739159347 \<and>
   selection_count ''headshot'' = 900719925474099 \<and>
   selection_count ''assist'' = 720575940379280 \<and>
   selection_count ''achievement'' = 630503947831869 \<and>
   selection_count ''level_up'' = 270215977642230 \<and>
   selection_count ''defuse_bomb'' = 180143985094820 \<and>
   \<bar>real (selection_count ''kill'') / 2 ^ 53 - 35 / 100\<bar> < 1 / 2 ^ 53 \<and>
   \<bar>real (selection_count ''death'') / 2 ^ 53 - 35 / 100\<bar> < 1 / 2 ^ 53 \<and>
   \<bar>real (selection_count ''headshot'') / 2 ^ 53 - 10 / 100\<bar> < 1 / 2 ^ 53 \<and>
   \<bar>real (selection_count ''assist'') / 2 ^ 53 - 8 / 100\<bar> < 1 / 2 ^ 53 \<and>
   \<bar>real (selection_count ''achievement'') / 2 ^ 53 - 7 / 100\<bar> < 1 / 2 ^ 53 \<and>
   \<bar>real (selection_count ''level_up'') / 2 ^ 53 - 3 / 100\<bar> < 1 / 2 ^ 53 \<and>
   \<bar>real (selection_count ''defuse_bomb'') / 2 ^ 53 - 2 / 100\<bar> < 1 / 2 ^ 53"
proof -
  have general: "\<forall>catalog i r t.
      distinct (map fst catalog) \<and> (\<forall>(a, info) \<in> set catalog. 0 \<le> weight info) \<and>
      float_of_int (weight_total catalog) = Inr t \<and> 0 < t \<and> i < length catalog \<longrightarrow>
      (select_action catalog r = Inr (fst (catalog ! i)) \<longleftrightarrow>
         real_of_int (weight_before catalog i) \<le> random_times r t \<and>
         (Suc i < length catalog \<longrightarrow>
            random_times r t <
              real_of_int (weight_before catalog i + weight (snd (catalog ! i)))))"
    using select_action_iff by blast
  have reference: "\<forall>pool d ev pool1.
      generate_event pool d = Inr (ev, pool1) \<longrightarrow>
      (ev_action_type ev = ''kill'' \<longleftrightarrow> action_r d < 3152519739159347) \<and>
      (ev_action_type ev = ''death'' \<longleftrightarrow>
         3152519739159347 \<le> action_r d \<and> action_r d < 6305039478318694) \<and>
      (ev_action_type ev = ''headshot'' \<longleftrightarrow>
         6305039478318694 \<le> action_r d \<and> action_r d < 7205759403792793) \<and>
      (ev_action_type ev = ''assist'' \<longleftrightarrow>
         7205759403792793 \<le> action_r d \<and> action_r d < 7926335344172073) \<and>
      (ev_action_type ev = ''achievement'' \<longleftrightarrow>
         7926335344172073 \<le> action_r d \<and> action_r d < 8556839292003942) \<and>
      (ev_action_type ev = ''level_up'' \<longleftrightarrow>
         8556839292003942 \<le> action_r d \<and> action_r d < 8827055269646172) \<and>
      (ev_action_type ev = ''defuse_bomb'' \<longleftrightarrow> 8827055269646172 \<le> action_r d)"
    using generate_event_reference by blast
  have total: "weight_total ACTION_TYPES = 100" by (rule ACTION_TYPES_facts)
  from general reference total selection_probabilities show ?thesis
    by blast
qed

lemma select_action_boundary_example:
  "select_action ACTION_TYPES 3152519739159347 = Inr ''death''"
  using select_action_reference[of 3152519739159347] by simp

lemma generate_event_boundary_example:
  "generate_event [alice, bob] boundary_draws =
     Inr (\<lparr>ev_player_id = ''PLAYER_0000'', ev_player_name = ''Alice'', ev_action_type = ''death'',
           ev_points = -10, ev_level = 1, ev_weapon = Some ''AK-47'', ev_map_name = ''de_dust2''\<rparr>,
          [alice\<lparr>total_points := -10, deaths := 1\<rparr>, bob])"
  by (simp add: generate_event_def boundary_draws_def select_action_boundary_example choice_def
      dict_get_death randint_def update_player_def WEAPONS_def MAPS_def alice_def Let_def)

text \<open>
  The claim as first stated gives \<^verbatim>\<open>kill\<close> the probability 35/100 exactly, so every
  value of \<^verbatim>\<open>random()\<close> below 35/100 would select it. The double nearest to 0.35 is below
  35/100, its product with 100.0 rounds to 35.0, and the call returns a \<^verbatim>\<open>death\<close>; the
  share of \<^verbatim>\<open>kill\<close> among the raw values is not 35/100.
\<close>

theorem weighted_choice_counterexample:
  "real (action_r boundary_draws) / 2 ^ 53 < 35 / 100 \<and>
   generate_event [alice, bob] boundary_draws =
     Inr (\<lparr>ev_player_id = ''PLAYER_0000'', ev_player_name = ''Alice'', ev_action_type = ''death'',
           ev_points = -10, ev_level = 1, ev_weapon = Some ''AK-47'', ev_map_name = ''de_dust2''\<rparr>,
          [alice\<lparr>total_points := -10, deaths := 1\<rparr>, bob]) \<and>
   real (selection_count ''kill'') / 2 ^ 53 \<noteq> 35 / 100"
proof -
  have "real (action_r boundary_draws) / 2 ^ 53 < 35 / 100"
    by (simp add: boundary_draws_def)
  moreover have "real (selection_count ''kill'') / 2 ^ 53 \<noteq> 35 / 100"
    by (simp add: selection_count_values)
  ultimately show ?thesis using generate_event_boundary_example by simp
qed

theorem weighted_choice_witness:
  "generate_event [alice, bob] death_draws =
     Inr (\<lparr>ev_player_id = ''PLAYER_0000'', ev_player_name = ''Alice'', ev_action_type = ''death'',
           ev_points = -10, ev_level = 1, ev_weapon = Some ''AK-47'', ev_map_name = ''de_dust2''\<rparr>,
          [alice\<lparr>total_points := -10, deaths := 1\<rparr>, bob]) \<and>
   action_r death_draws = 4503599627370496 \<and>
   3152519739159347 \<le> action_r death_draws \<and> action_r death_draws < 6305039478318694 \<and>
   distinct (map fst ACTION_TYPES) \<and> list_all (\<lambda>(a, info). 0 \<le> weight info) ACTION_TYPES \<and>
   float_of_int (weight_total ACTION_TYPES) = Inr 100 \<and> Suc 0 < length ACTION_TYPES \<and>
   fst (ACTION_TYPES ! Suc 0) = ''death'' \<and>
   35 \<le> random_times 4503599627370496 100 \<and> random_times 4503599627370496 100 < 70"
proof -
  note r = weighted_choice[THEN conjunct2, THEN conjunct1, rule_format,
      OF generate_event_death_example]
  from r have b: "3152519739159347 \<le> action_r death_draws \<and> action_r death_draws < 6305039478318694"
    by simp
  have i: "Suc 0 < length ACTION_TYPES" by (simp add: ACTION_TYPES_facts)
  have p: "(0::int) < 100" by simp
  note g = weighted_choice[THEN conjunct1, rule_format,
      OF conjI[OF ACTION_TYPES_facts(1) conjI[OF ACTION_TYPES_facts(2)
        conjI[OF float_of_int_weight_total conjI[OF p i]]]], of 4503599627370496]
  from g select_action_death_example
  have x: "35 \<le> random_times 4503599627370496 100 \<and> random_times 4503599627370496 100 < 70"
    by (simp add: ACTION_TYPES_nth ACTION_TYPES_weight_before ACTION_TYPES_facts(4))
  have a: "action_r death_draws = 4503599627370496" by (simp add: death_draws_def)
  have n: "fst (ACTION_TYPES ! Suc 0) = ''death''" by (simp add: ACTION_TYPES_nth)
  from b x a n i generate_event_death_example ACTION_TYPES_facts(1,2) float_of_int_weight_total
  show ?thesis by (simp add: list_all_iff)
qed

section \<open>The ranking\<close>

lemma mset_sorted_py: "mset (sorted_py key reverse xs) = mset xs"
  by (simp add: sorted_py_def)

lemma sorted_py_descending:
  "sorted_wrt (\<lambda>p q. key q \<le> key p) (sorted_py key True xs)"
proof -
  have "sorted_wrt (\<lambda>p q. key p \<le> key q) (sort_key key (rev xs))"
    using sorted_sort_key[of key "rev xs"] by (simp add: sorted_map)
  then show ?thesis
    by (simp add: sorted_py_def sorted_wrt_rev)
qed

lemma sorted_py_stable:
  "filter (\<lambda>p. key p = k) (sorted_py key reverse xs) = filter (\<lambda>p. key p = k) xs"
  by (simp add: sorted_py_def sort_key_stable flip: rev_filter)

lemma take_drop_descending:
  assumes "sorted_wrt (\<lambda>p q. key q \<le> key p) xs"
    and "p \<in> set (take n xs)" and "q \<in> set (drop n xs)"
  shows "key q \<le> key p"
proof -
  have "sorted_wrt (\<lambda>p q. key q \<le> key p) (take n xs @ drop n xs)"
    using assms(1) by simp
  then show ?thesis
    using assms(2,3) unfolding sorted_wrt_append by blast
qed

lemma filter_take_prefix:
  "\<exists>rest. filter P xs = filter P (take n xs) @ rest"
proof -
  have "filter P xs = filter P (take n xs @ drop n xs)" by simp
  also have "\<dots> = filter P (take n xs) @ filter P (drop n xs)"
    by (simp only: filter_append)
  finally show ?thesis by blast
qed

text \<open>
  Claim C9. For every pool and every \<open>n\<close>, the first \<open>n\<close> entries of the pool sorted by
  \<open>total_points\<close> with \<^verbatim>\<open>reverse=True\<close> are \<open>min n (length pool)\<close> players of the pool,
  in descending order of \<open>total_points\<close>, none of them below any player left out, and
  players with equal \<open>total_points\<close> appear in their pool order. \<^verbatim>\<open>print_statistics\<close>
  takes \<open>n = 3\<close>.
\<close>

theorem top_players_correct:
  "(let ranked = sorted_py total_points True pool; top = take n ranked in
      mset ranked = mset pool \<and>
      length top = min n (length pool) \<and>
      sorted_wrt (\<lambda>p q. total_points q \<le> total_points p) top \<and>
      (\<forall>p \<in> set top. \<forall>q \<in> set (drop n ranked). total_points q \<le> total_points p) \<and>
      (\<forall>k. filter (\<lambda>p. total_points p = k) ranked = filter (\<lambda>p. total_points p = k) pool) \<and>
      (\<forall>k. \<exists>rest. filter (\<lambda>p. total_points p = k) pool =
                     filter (\<lambda>p. total_points p = k) top @ rest)) \<and>
   top_players pool = take 3 (sorted_py total_points True pool)"
proof -
  let ?ranked = "sorted_py total_points True pool"
  have m: "mset ?ranked = mset pool" by (rule mset_sorted_py)
  then have "length ?ranked = length pool" by (rule mset_eq_length)
  then have l: "length (take n ?ranked) = min n (length pool)" by simp
  have d: "sorted_wrt (\<lambda>p q. total_points q \<le> total_points p) ?ranked"
    by (rule sorted_py_descending)
  then have "sorted_wrt (\<lambda>p q. total_points q \<le> total_points p) (take n ?ranked @ drop n ?ranked)"
    by simp
  then have s: "sorted_wrt (\<lambda>p q. total_points q \<le> total_points p) (take n ?ranked)"
    unfolding sorted_wrt_append by blast
  have h: "\<forall>p \<in> set (take n ?ranked). \<forall>q \<in> set (drop n ?ranked). total_points q \<le> total_points p"
    using take_drop_descending[OF d] by blast
  have st: "\<forall>k. filter (\<lambda>p. total_points p = k) ?ranked = filter (\<lambda>p. total_points p = k) pool"
    by (simp add: sorted_py_stable)
  have pr: "\<forall>k. \<exists>rest. filter (\<lambda>p. total_points p = k) pool =
                     filter (\<lambda>p. total_points p = k) (take n ?ranked) @ rest"
    using filter_take_prefix[of _ ?ranked n] st by metis
  have "top_players pool = take 3 ?ranked" by (simp add: top_players_def)
  with m l s h st pr show ?thesis unfolding Let_def by blast
qed

lemma sorted_py_ranking_pool:
  "sorted_py total_points True ranking_pool =
     [ranking_pool ! 1, ranking_pool ! 3, ranking_pool ! 0, ranking_pool ! 2]"
  by (simp add: sorted_py_def ranking_pool_def sort_key_def)

lemma top_players_ranking_pool:
  "top_players ranking_pool = [ranking_pool ! 1, ranking_pool ! 3, ranking_pool ! 0]"
  by (simp add: top_players_def sorted_py_ranking_pool)

theorem top_players_correct_witness:
  "top_players ranking_pool = [ranking_pool ! 1, ranking_pool ! 3, ranking_pool ! 0] \<and>
   drop 3 (sorted_py total_points True ranking_pool) = [ranking_pool ! 2] \<and>
   total_points (ranking_pool ! 2) \<le> total_points (ranking_pool ! 1) \<and>
   total_points (ranking_pool ! 2) \<le> total_points (ranking_pool ! 3) \<and>
   total_points (ranking_pool ! 2) \<le> total_points (ranking_pool ! 0) \<and>
   filter (\<lambda>p. total_points p = 30) [ranking_pool ! 1, ranking_pool ! 3, ranking_pool ! 0, ranking_pool ! 2] =
     filter (\<lambda>p. total_points p = 30) ranking_pool"
proof -
  note t = top_players_correct[of ranking_pool 3, unfolded Let_def sorted_py_ranking_pool]
  from t have "\<forall>p \<in> set (take 3 [ranking_pool ! 1, ranking_pool ! 3, ranking_pool ! 0, ranking_pool ! 2]).
      \<forall>q \<in> set (drop 3 [ranking_pool ! 1, ranking_pool ! 3, ranking_pool ! 0, ranking_pool ! 2]).
        total_points q \<le> total_points p"
    by blast
  then have a: "\<forall>p \<in> set [ranking_pool ! 1, ranking_pool ! 3, ranking_pool ! 0].
      \<forall>q \<in> set [ranking_pool ! 2]. total_points q \<le> total_points p"
    by simp
  from t have b: "filter (\<lambda>p. total_points p = 30) [ranking_pool ! 1, ranking_pool ! 3, ranking_pool ! 0, ranking_pool ! 2] =
     filter (\<lambda>p. total_points p = 30) ranking_pool"
    by blast
  from a b top_players_ranking_pool show ?thesis
    by (simp add: sorted_py_ranking_pool)
qed

end
